theory Spec2Isabelle
  imports Main "HOL-Library.AList" "HOL-Library.List_Lexorder" "HOL-Library.Product_Lexorder"
begin

section \<open>Python strings and the character tables\<close>

text \<open>
  A Python \<open>str\<close> is a sequence of Unicode code points, so a string is a list of
  naturals (the pipeline works on Russian text, and \<open>[U+0430-U+044F]+\<close> is one of
  its patterns). ASCII literals of the source are written \<open>ascii ''NOUN''\<close>.
  Python compares strings lexicographically by code point, which is the order of
  lists of naturals; tuples compare lexicographically as well.
\<close>

type_synonym ustring = "nat list"

definition ascii :: "string \<Rightarrow> ustring" where
  "ascii s = map of_char s"

text \<open>
  The classification of code points belongs to the interpreter's Unicode database, not
  to the repository, so it is a parameter: \<open>str.isalnum\<close>, \<open>str.isdigit\<close>, whitespace
  (\<open>\s\<close>, \<open>str.strip\<close>), the decimal value of a digit (\<open>\d\<close>, \<open>int\<close>) per code point,
  and \<open>str.lower\<close> on whole strings (it is context dependent).
\<close>

record unicode =
  isalnum_cp :: "nat \<Rightarrow> bool"
  isdigit_cp :: "nat \<Rightarrow> bool"
  isspace_cp :: "nat \<Rightarrow> bool"
  decimal_cp :: "nat \<Rightarrow> nat option"
  lower :: "ustring \<Rightarrow> ustring"

text \<open>\<open>s.isalnum()\<close> and \<open>s.isdigit()\<close>: false on the empty string.\<close>

definition isalnum :: "unicode \<Rightarrow> ustring \<Rightarrow> bool" where
  "isalnum U s = (s \<noteq> [] \<and> list_all (isalnum_cp U) s)"

definition isdigit :: "unicode \<Rightarrow> ustring \<Rightarrow> bool" where
  "isdigit U s = (s \<noteq> [] \<and> list_all (isdigit_cp U) s)"

text \<open>\<open>\w\<close>: the alphanumeric code points and the underscore; \<open>\W\<close> is its complement.\<close>

definition is_word :: "unicode \<Rightarrow> nat \<Rightarrow> bool" where
  "is_word U c = (isalnum_cp U c \<or> c = 95)"

definition is_nonword :: "unicode \<Rightarrow> nat \<Rightarrow> bool" where
  "is_nonword U c = (\<not> is_word U c)"

definition is_decimal :: "unicode \<Rightarrow> nat \<Rightarrow> bool" where
  "is_decimal U c = (decimal_cp U c \<noteq> None)"

text \<open>The character class \<open>[U+0430-U+044F]\<close> (Cyrillic small a to small ya).\<close>

definition is_cyrillic_small :: "nat \<Rightarrow> bool" where
  "is_cyrillic_small c = (1072 \<le> c \<and> c \<le> 1103)"

subsection \<open>The regular expressions of the source\<close>

text \<open>
  Every pattern of the source is \<open>C+\<close> for a character class \<open>C\<close>.
  \<open>re.findall(C+, s)\<close> lists the maximal runs of \<open>C\<close> in \<open>s\<close>; the accumulator holds
  the run being read, reversed.
\<close>

fun findall_acc :: "(nat \<Rightarrow> bool) \<Rightarrow> ustring \<Rightarrow> ustring \<Rightarrow> ustring list" where
  "findall_acc P cur [] = (if cur = [] then [] else [rev cur])"
| "findall_acc P cur (c # cs) =
     (if P c then findall_acc P (c # cur) cs
      else (if cur = [] then [] else [rev cur]) @ findall_acc P [] cs)"

definition findall :: "(nat \<Rightarrow> bool) \<Rightarrow> ustring \<Rightarrow> ustring list" where
  "findall P s = findall_acc P [] s"

text \<open>
  \<open>re.sub(C+, rep, s)\<close> replaces every maximal run of \<open>C\<close> by \<open>rep\<close>; the flag says
  that the previous character belonged to a run already replaced.
\<close>

fun sub_run :: "(nat \<Rightarrow> bool) \<Rightarrow> ustring \<Rightarrow> bool \<Rightarrow> ustring \<Rightarrow> ustring" where
  "sub_run P rep inrun [] = []"
| "sub_run P rep inrun (c # cs) =
     (if P c then (if inrun then [] else rep) @ sub_run P rep True cs
      else c # sub_run P rep False cs)"

definition sub :: "(nat \<Rightarrow> bool) \<Rightarrow> ustring \<Rightarrow> ustring \<Rightarrow> ustring" where
  "sub P rep s = sub_run P rep False s"

text \<open>\<open>re.match(C+, s)\<close>: the run of \<open>C\<close> at the start of \<open>s\<close>, \<open>None\<close> when it is empty.\<close>

definition match :: "(nat \<Rightarrow> bool) \<Rightarrow> ustring \<Rightarrow> ustring option" where
  "match P s = (if takeWhile P s = [] then None else Some (takeWhile P s))"

text \<open>\<open>s.strip()\<close> and \<open>sep.join(xs)\<close>.\<close>

definition strip :: "unicode \<Rightarrow> ustring \<Rightarrow> ustring" where
  "strip U s = rev (dropWhile (isspace_cp U) (rev (dropWhile (isspace_cp U) s)))"

fun join :: "ustring \<Rightarrow> ustring list \<Rightarrow> ustring" where
  "join sep [] = []"
| "join sep [x] = x"
| "join sep (x # y # ys) = x @ sep @ join sep (y # ys)"

section \<open>Errors\<close>

text \<open>
  The exceptions the source can raise: the two classes it declares, the ones it raises
  by name, and the built-in ones of a subscript out of range (\<open>IndexError\<close>), a missing
  dictionary key (\<open>KeyError\<close>), a subscript of \<open>None\<close> (\<open>TypeError\<close>) and \<open>int\<close> of a
  malformed literal (\<open>ValueError\<close>). The source defines no exception class for an
  exhausted analyzer stream or an unmapped tag: these surface as \<open>IndexError\<close> and
  \<open>KeyError\<close>.
\<close>

datatype py_error =
    IndexError
  | KeyError
  | TypeError
  | ValueError
  | FileNotFoundError
  | NotADirectoryError
  | InconsistentDatasetError string
  | EmptyDirectoryError

section \<open>The data model\<close>

text \<open>One entry of the analyzer's output: \<open>{'text': ..., 'analysis': [{'lex', 'gr'}, ...]}\<close>,
  the key \<open>analysis\<close> optional.\<close>

record analysis =
  lex :: ustring
  gr :: ustring

record entry =
  entry_text :: ustring
  entry_analysis :: "analysis list option"

text \<open>
  \<open>MorphologicalTokenDTO\<close>. The field \<open>pos\<close> is optional: the OpenCorpora converter
  returns \<open>None\<close> for a tag without part of speech.
\<close>

record MorphologicalTokenDTO =
  dto_lemma :: ustring
  dto_pos :: "ustring option"
  dto_tags :: ustring

definition default_dto :: MorphologicalTokenDTO where
  "default_dto = \<lparr>dto_lemma = [], dto_pos = Some [], dto_tags = []\<rparr>"

record ConlluToken =
  tok_text :: ustring
  morphological_parameters :: MorphologicalTokenDTO
  tok_position :: "nat option"

record ConlluSentence =
  sent_position :: nat
  sent_text :: ustring
  sent_tokens :: "ConlluToken list"

text \<open>
  A \<open>TagConverter\<close>: the category names (class attributes of the base class, which
  belongs to \<open>core_utils\<close>, hence parameters) and the mapping loaded from JSON,
  category name to (analyzer tag to UD value).
\<close>

record tag_converter =
  cat_pos :: ustring
  cat_case :: ustring
  cat_number :: ustring
  cat_gender :: ustring
  cat_animacy :: ustring
  cat_tense :: ustring
  tag_mapping :: "ustring \<Rightarrow> (ustring \<Rightarrow> ustring option) option"

text \<open>The fields of an OpenCorpora tag that the source reads, and one parse of the
  backup analyzer.\<close>

record oc_tag =
  oc_POS :: "ustring option"
  oc_animacy :: "ustring option"
  oc_case :: "ustring option"
  oc_gender :: "ustring option"
  oc_number :: "ustring option"

record oc_parse =
  normal_form :: ustring
  parse_tag :: oc_tag

section \<open>Tag converters\<close>

text \<open>\<open>d[k]\<close> on a dictionary raises \<open>KeyError\<close> for a missing key.\<close>

definition getitem :: "('k \<Rightarrow> 'v option) \<Rightarrow> 'k \<Rightarrow> py_error + 'v" where
  "getitem d k = (case d k of None \<Rightarrow> Inl KeyError | Some v \<Rightarrow> Inr v)"

text \<open>\<open>'|'.join(f'{k}={v}' for k, v in items)\<close>\<close>

definition format_tags :: "(ustring \<times> ustring) list \<Rightarrow> ustring" where
  "format_tags items = join (ascii ''|'') (map (\<lambda>(k, v). k @ ascii ''='' @ v) items)"

subsection \<open>MystemTagConverter\<close>

definition priority :: "tag_converter \<Rightarrow> ustring list" where
  "priority tc = [cat_case tc, cat_number tc, cat_gender tc, cat_animacy tc, cat_tense tc]"

text \<open>
  The inner loop of \<open>convert_morphological_tags\<close> over the categories, for one tag.
  \<open>ud_tags\<close> is an insertion-ordered dictionary: an association list.
\<close>

fun assign_tag ::
  "tag_converter \<Rightarrow> (ustring \<times> ustring) list \<Rightarrow> ustring \<Rightarrow> ustring list
    \<Rightarrow> py_error + (ustring \<times> ustring) list" where
  "assign_tag tc ud_tags tag [] = Inr ud_tags"
| "assign_tag tc ud_tags tag (category # categories) =
     (case tag_mapping tc category of
        None \<Rightarrow> Inl KeyError
      | Some table \<Rightarrow>
          (case table tag of
             None \<Rightarrow> assign_tag tc ud_tags tag categories
           | Some v \<Rightarrow>
               if map_of ud_tags category = None
               then Inr (AList.update category v ud_tags)
               else assign_tag tc ud_tags tag categories))"

text \<open>The outer loop over the extracted tags.\<close>

fun collect_ud_tags ::
  "tag_converter \<Rightarrow> (ustring \<times> ustring) list \<Rightarrow> ustring list
    \<Rightarrow> py_error + (ustring \<times> ustring) list" where
  "collect_ud_tags tc ud_tags [] = Inr ud_tags"
| "collect_ud_tags tc ud_tags (tag # extracted_tags) =
     (case assign_tag tc ud_tags tag (priority tc) of
        Inl e \<Rightarrow> Inl e
      | Inr ud_tags' \<Rightarrow> collect_ud_tags tc ud_tags' extracted_tags)"

definition mystem_ud_tags ::
  "tag_converter \<Rightarrow> ustring \<Rightarrow> py_error + (ustring \<times> ustring) list" where
  "mystem_ud_tags tc tags = collect_ud_tags tc [] (findall is_cyrillic_small tags)"

definition mystem_convert_morphological_tags ::
  "tag_converter \<Rightarrow> ustring \<Rightarrow> py_error + ustring" where
  "mystem_convert_morphological_tags tc tags =
     (case mystem_ud_tags tc tags of
        Inl e \<Rightarrow> Inl e
      | Inr ud_tags \<Rightarrow> Inr (format_tags (sort ud_tags)))"

definition mystem_convert_pos :: "unicode \<Rightarrow> tag_converter \<Rightarrow> ustring \<Rightarrow> py_error + ustring" where
  "mystem_convert_pos U tc tags =
     (case match (is_word U) tags of
        None \<Rightarrow> Inl TypeError
      | Some p \<Rightarrow>
          (case getitem (tag_mapping tc) (cat_pos tc) of
             Inl e \<Rightarrow> Inl e
           | Inr table \<Rightarrow> getitem table p))"

subsection \<open>OpenCorporaTagConverter\<close>

text \<open>Without a part of speech the method falls off its end and returns \<open>None\<close>.\<close>

definition oc_convert_pos :: "tag_converter \<Rightarrow> oc_tag \<Rightarrow> py_error + ustring option" where
  "oc_convert_pos tc tags =
     (case oc_POS tags of
        None \<Rightarrow> Inr None
      | Some p \<Rightarrow>
          (case getitem (tag_mapping tc) (cat_pos tc) of
             Inl e \<Rightarrow> Inl e
           | Inr table \<Rightarrow>
               (case getitem table p of Inl e \<Rightarrow> Inl e | Inr v \<Rightarrow> Inr (Some v))))"

fun oc_collect ::
  "tag_converter \<Rightarrow> (ustring \<times> ustring) list \<Rightarrow> (ustring \<times> ustring option) list
    \<Rightarrow> py_error + (ustring \<times> ustring) list" where
  "oc_collect tc ud_tags [] = Inr ud_tags"
| "oc_collect tc ud_tags ((k, v) # lst) =
     (case v of
        None \<Rightarrow> oc_collect tc ud_tags lst
      | Some m \<Rightarrow>
          (case getitem (tag_mapping tc) k of
             Inl e \<Rightarrow> Inl e
           | Inr table \<Rightarrow>
               (case getitem table m of
                  Inl e \<Rightarrow> Inl e
                | Inr x \<Rightarrow> oc_collect tc (AList.update k x ud_tags) lst)))"

definition oc_ud_tags :: "tag_converter \<Rightarrow> oc_tag \<Rightarrow> py_error + (ustring \<times> ustring) list" where
  "oc_ud_tags tc tags =
     oc_collect tc []
       [(cat_animacy tc, oc_animacy tags), (cat_case tc, oc_case tags),
        (cat_gender tc, oc_gender tags), (cat_number tc, oc_number tags)]"

definition oc_convert_morphological_tags :: "tag_converter \<Rightarrow> oc_tag \<Rightarrow> py_error + ustring" where
  "oc_convert_morphological_tags tc tags =
     (case oc_ud_tags tc tags of
        Inl e \<Rightarrow> Inl e
      | Inr ud_tags \<Rightarrow> Inr (format_tags ud_tags))"

section \<open>ConlluToken and ConlluSentence\<close>

text \<open>\<open>str(n)\<close> for a position: decimal digits, and \<open>'None'\<close> for a position never set.\<close>

function str_nat :: "nat \<Rightarrow> ustring" where
  "str_nat n = (if n < 10 then [48 + n] else str_nat (n div 10) @ [48 + n mod 10])"
  by pat_completeness auto
termination
  by (relation "measure id") auto

definition str_position :: "nat option \<Rightarrow> ustring" where
  "str_position p = (case p of None \<Rightarrow> ascii ''None'' | Some n \<Rightarrow> str_nat n)"

definition conllu_fields :: "bool \<Rightarrow> ConlluToken \<Rightarrow> ustring list" where
  "conllu_fields include_morphological_tags t =
     (let pos = (case dto_pos (morphological_parameters t) of
                   None \<Rightarrow> ascii ''X''
                 | Some p \<Rightarrow> p);
          feats = (if include_morphological_tags
                   then (if dto_tags (morphological_parameters t) \<noteq> []
                         then dto_tags (morphological_parameters t) else ascii ''_'')
                   else ascii ''_'')
      in [str_position (tok_position t), tok_text t,
          dto_lemma (morphological_parameters t), pos, ascii ''_'', feats,
          ascii ''0'', ascii ''root'', ascii ''_'', ascii ''_''])"

definition get_conllu_text :: "bool \<Rightarrow> ConlluToken \<Rightarrow> ustring" where
  "get_conllu_text include_morphological_tags t =
     join [9] (conllu_fields include_morphological_tags t)"

text \<open>\<open>re.sub(r'\W+', '', self._text).lower()\<close>\<close>

definition get_cleaned :: "unicode \<Rightarrow> ConlluToken \<Rightarrow> ustring" where
  "get_cleaned U t = lower U (sub (is_nonword U) [] (tok_text t))"

definition get_cleaned_sentence :: "unicode \<Rightarrow> ConlluSentence \<Rightarrow> ustring" where
  "get_cleaned_sentence U s =
     strip U (sub (isspace_cp U) (ascii '' '')
       (join (ascii '' '') (map (get_cleaned U) (sent_tokens s))))"

section \<open>The pipelines\<close>

text \<open>
  The branch of \<open>MorphologicalAnalysisPipeline._process\<close> that turns the entry taken for
  a word into its morphological parameters. A truthy \<open>analysis\<close> is a non-empty list.
\<close>

definition classify :: "unicode \<Rightarrow> tag_converter \<Rightarrow> entry \<Rightarrow> py_error + MorphologicalTokenDTO" where
  "classify U tc analyzed_content =
     (case entry_analysis analyzed_content of
        Some (a # rest) \<Rightarrow>
          (case mystem_convert_pos U tc (gr a) of
             Inl e \<Rightarrow> Inl e
           | Inr pos \<Rightarrow>
               (case mystem_convert_morphological_tags tc (gr a) of
                  Inl e \<Rightarrow> Inl e
                | Inr tags \<Rightarrow> Inr \<lparr>dto_lemma = lex a, dto_pos = Some pos, dto_tags = tags\<rparr>))
      | _ \<Rightarrow>
          if isdigit U (entry_text analyzed_content)
          then Inr \<lparr>dto_lemma = entry_text analyzed_content, dto_pos = Some (ascii ''NUM''),
                    dto_tags = []\<rparr>
          else Inr \<lparr>dto_lemma = entry_text analyzed_content, dto_pos = Some (ascii ''X''),
                    dto_tags = []\<rparr>)"

text \<open>
  The same branch of \<open>AdvancedMorphologicalAnalysisPipeline._process\<close>; \<open>parse\<close> is the
  backup analyzer, \<open>btc\<close> the backup tag converter. \<open>parse(...)[0]\<close> raises
  \<open>IndexError\<close> on an empty list.
\<close>

definition classify_advanced ::
  "unicode \<Rightarrow> tag_converter \<Rightarrow> tag_converter \<Rightarrow> (ustring \<Rightarrow> oc_parse list) \<Rightarrow> entry
    \<Rightarrow> py_error + MorphologicalTokenDTO" where
  "classify_advanced U tc btc parse analyzed_content =
     (case entry_analysis analyzed_content of
        Some (a # rest) \<Rightarrow>
          (case mystem_convert_pos U tc (gr a) of
             Inl e \<Rightarrow> Inl e
           | Inr pos \<Rightarrow>
               if pos = ascii ''NOUN''
               then (case parse (entry_text analyzed_content) of
                       [] \<Rightarrow> Inl IndexError
                     | p # ps \<Rightarrow>
                         (case oc_convert_pos btc (parse_tag p) of
                            Inl e \<Rightarrow> Inl e
                          | Inr pos' \<Rightarrow>
                              (case oc_convert_morphological_tags btc (parse_tag p) of
                                 Inl e \<Rightarrow> Inl e
                               | Inr tags \<Rightarrow>
                                   Inr \<lparr>dto_lemma = normal_form p, dto_pos = pos',
                                        dto_tags = tags\<rparr>)))
               else (case mystem_convert_morphological_tags tc (gr a) of
                       Inl e \<Rightarrow> Inl e
                     | Inr tags \<Rightarrow>
                         Inr \<lparr>dto_lemma = lex a, dto_pos = Some pos, dto_tags = tags\<rparr>))
      | _ \<Rightarrow>
          if isdigit U (entry_text analyzed_content)
          then Inr \<lparr>dto_lemma = entry_text analyzed_content, dto_pos = Some (ascii ''NUM''),
                    dto_tags = []\<rparr>
          else Inr \<lparr>dto_lemma = entry_text analyzed_content, dto_pos = Some (ascii ''X''),
                    dto_tags = []\<rparr>)"

text \<open>
  The loop over the words of one sentence, \<open>for i, word in enumerate(words, 1)\<close>. The
  two \<open>_process\<close> methods differ in the classification branch only, which is the
  parameter \<open>cl\<close>. The state is the cursor \<open>number_of_words\<close> into \<open>result\<close>; both
  subscripts \<open>result[number_of_words]\<close> raise \<open>IndexError\<close> past the end. The token
  takes its text from the entry, not from the word.
\<close>

fun process_words ::
  "unicode \<Rightarrow> (entry \<Rightarrow> py_error + MorphologicalTokenDTO) \<Rightarrow> entry list \<Rightarrow> nat \<Rightarrow> nat
    \<Rightarrow> ustring list \<Rightarrow> py_error + (ConlluToken list \<times> nat)" where
  "process_words U cl result number_of_words i [] = Inr ([], number_of_words)"
| "process_words U cl result number_of_words i (word # words) =
     (if length result \<le> number_of_words then Inl IndexError
      else
        let number_of_words' =
              (if \<not> isalnum U (entry_text (result ! number_of_words))
               then number_of_words + 1 else number_of_words)
        in
          if length result \<le> number_of_words' then Inl IndexError
          else
            let analyzed_content = result ! number_of_words' in
              (case cl analyzed_content of
                 Inl e \<Rightarrow> Inl e
               | Inr parameters \<Rightarrow>
                   (case process_words U cl result (number_of_words' + 1) (i + 1) words of
                      Inl e \<Rightarrow> Inl e
                    | Inr (tokens, n) \<Rightarrow>
                        Inr (\<lparr>tok_text = entry_text analyzed_content,
                              morphological_parameters = parameters,
                              tok_position = Some i\<rparr> # tokens, n))))"

definition punct_token :: "nat \<Rightarrow> ConlluToken" where
  "punct_token n =
     \<lparr>tok_text = ascii ''.'',
      morphological_parameters =
        \<lparr>dto_lemma = ascii ''.'', dto_pos = Some (ascii ''PUNCT''), dto_tags = []\<rparr>,
      tok_position = Some n\<rparr>"

text \<open>The loop over the sentences, \<open>for ind, sentence in enumerate(...)\<close>.\<close>

fun process_sentences ::
  "unicode \<Rightarrow> (entry \<Rightarrow> py_error + MorphologicalTokenDTO) \<Rightarrow> entry list \<Rightarrow> nat \<Rightarrow> nat
    \<Rightarrow> ustring list \<Rightarrow> py_error + ConlluSentence list" where
  "process_sentences U cl result number_of_words ind [] = Inr []"
| "process_sentences U cl result number_of_words ind (sentence # sentences) =
     (let words = findall (is_word U) sentence in
        (case process_words U cl result number_of_words 1 words of
           Inl e \<Rightarrow> Inl e
         | Inr (tokens, n) \<Rightarrow>
             (case process_sentences U cl result n (ind + 1) sentences of
                Inl e \<Rightarrow> Inl e
              | Inr conllu_sentences \<Rightarrow>
                  Inr (\<lparr>sent_position = ind, sent_text = sentence,
                        sent_tokens = tokens @ [punct_token (length words + 1)]\<rparr>
                       # conllu_sentences))))"

text \<open>
  \<open>_process\<close> of both pipelines. The analyzer (\<open>Mystem.analyze\<close>) and
  \<open>split_by_sentence\<close> are external: parameters.
\<close>

definition process_with ::
  "unicode \<Rightarrow> (entry \<Rightarrow> py_error + MorphologicalTokenDTO) \<Rightarrow> (ustring \<Rightarrow> entry list)
    \<Rightarrow> (ustring \<Rightarrow> ustring list) \<Rightarrow> ustring \<Rightarrow> py_error + ConlluSentence list" where
  "process_with U cl analyze split_by_sentence txt =
     process_sentences U cl (analyze (sub (is_nonword U) (ascii '' '') txt)) 0 0
       (split_by_sentence txt)"

definition process ::
  "unicode \<Rightarrow> tag_converter \<Rightarrow> (ustring \<Rightarrow> entry list) \<Rightarrow> (ustring \<Rightarrow> ustring list)
    \<Rightarrow> ustring \<Rightarrow> py_error + ConlluSentence list" where
  "process U tc analyze split_by_sentence txt =
     process_with U (classify U tc) analyze split_by_sentence txt"

definition process_advanced ::
  "unicode \<Rightarrow> tag_converter \<Rightarrow> tag_converter \<Rightarrow> (ustring \<Rightarrow> oc_parse list)
    \<Rightarrow> (ustring \<Rightarrow> entry list) \<Rightarrow> (ustring \<Rightarrow> ustring list) \<Rightarrow> ustring
    \<Rightarrow> py_error + ConlluSentence list" where
  "process_advanced U tc btc parse analyze split_by_sentence txt =
     process_with U (classify_advanced U tc btc parse) analyze split_by_sentence txt"

section \<open>CorpusManager\<close>

text \<open>
  \<open>int(s)\<close> on a string: surrounding whitespace is removed, one sign is allowed, and the
  rest must be decimal digits, single underscores allowed between digits; anything
  else raises \<open>ValueError\<close>.
\<close>

fun literal_body :: "unicode \<Rightarrow> ustring \<Rightarrow> bool" where
  "literal_body U [] = False"
| "literal_body U [c] = is_decimal U c"
| "literal_body U (c # d # r) =
     (is_decimal U c \<and> (if d = 95 then literal_body U r else literal_body U (d # r)))"

definition int_digits :: "unicode \<Rightarrow> ustring \<Rightarrow> int" where
  "int_digits U ds =
     foldl (\<lambda>acc c. 10 * acc + (case decimal_cp U c of None \<Rightarrow> 0 | Some d \<Rightarrow> int d)) 0 ds"

definition py_int :: "unicode \<Rightarrow> ustring \<Rightarrow> py_error + int" where
  "py_int U s =
     (let t = strip U s;
          negative = (t \<noteq> [] \<and> hd t = 45);
          body = (if t \<noteq> [] \<and> (hd t = 45 \<or> hd t = 43) then tl t else t)
      in if literal_body U body
         then Inr ((if negative then - 1 else 1) * int_digits U (filter (\<lambda>c. c \<noteq> 95) body))
         else Inl ValueError)"

text \<open>\<open>int(re.match(r'\d+', name)[0])\<close> and \<open>int(name.split("_")[0])\<close>.\<close>

definition leading_id :: "unicode \<Rightarrow> ustring \<Rightarrow> py_error + int" where
  "leading_id U name =
     (case match (is_decimal U) name of
        None \<Rightarrow> Inl TypeError
      | Some m \<Rightarrow> py_int U m)"

definition split_id :: "unicode \<Rightarrow> ustring \<Rightarrow> py_error + int" where
  "split_id U name = py_int U (takeWhile (\<lambda>c. c \<noteq> 95) name)"

text \<open>A comprehension whose element expression can raise: the first error ends it.\<close>

fun traverse :: "('a \<Rightarrow> py_error + 'b) \<Rightarrow> 'a list \<Rightarrow> py_error + 'b list" where
  "traverse f [] = Inr []"
| "traverse f (x # xs) =
     (case f x of
        Inl e \<Rightarrow> Inl e
      | Inr y \<Rightarrow> (case traverse f xs of Inl e \<Rightarrow> Inl e | Inr ys \<Rightarrow> Inr (y # ys)))"

text \<open>
  The directory as \<open>_validate_dataset\<close> sees it: whether the path exists and is a
  directory, and the files (name and size) that the two \<open>glob\<close> calls return.
\<close>

record data_file =
  file_name :: ustring
  st_size :: nat

record dataset =
  path_exists :: bool
  path_is_dir :: bool
  meta_files :: "data_file list"
  raw_files :: "data_file list"

definition validate_dataset :: "unicode \<Rightarrow> dataset \<Rightarrow> py_error + unit" where
  "validate_dataset U d =
     (if \<not> path_exists d then Inl FileNotFoundError
      else if \<not> path_is_dir d then Inl NotADirectoryError
      else
        case traverse (\<lambda>i. leading_id U (file_name i)) (meta_files d) of
          Inl e \<Rightarrow> Inl e
        | Inr ids \<Rightarrow>
            if sort ids \<noteq> map int [1..<length (meta_files d) + 1]
            then Inl (InconsistentDatasetError [])
            else
              case traverse (\<lambda>i. leading_id U (file_name i)) (raw_files d) of
                Inl e \<Rightarrow> Inl e
              | Inr raw_ids \<Rightarrow>
                  if sort raw_ids \<noteq> map int [1..<length (raw_files d) + 1]
                  then Inl (InconsistentDatasetError [])
                  else if length (meta_files d) \<noteq> length (raw_files d)
                  then Inl (InconsistentDatasetError
                         ''Number of meta and raw files is not equal'')
                  else if meta_files d = [] \<or> raw_files d = []
                  then Inl EmptyDirectoryError
                  else
                    case traverse (\<lambda>f. split_id U (file_name f)) (raw_files d) of
                      Inl e \<Rightarrow> Inl e
                    | Inr file_ids \<Rightarrow>
                        if length file_ids \<noteq> length (remdups file_ids)
                        then Inl (InconsistentDatasetError ''IDs contain duplicates'')
                        else if filter (\<lambda>f. st_size f = 0) (raw_files d) \<noteq> []
                        then Inl (InconsistentDatasetError ''The following files are empty'')
                        else Inr ())"

section \<open>Predicates used in the statements\<close>

text \<open>A tag token has an entry in the part-of-speech category of the mapping.\<close>

definition pos_mapped :: "tag_converter \<Rightarrow> ustring \<Rightarrow> bool" where
  "pos_mapped tc p =
     (case tag_mapping tc (cat_pos tc) of None \<Rightarrow> False | Some table \<Rightarrow> table p \<noteq> None)"

text \<open>
  The category names under which the OpenCorpora converter stores its features,
  in the order in which it stores them, are strictly increasing.
\<close>

definition oc_keys_ordered :: "tag_converter \<Rightarrow> bool" where
  "oc_keys_ordered tc =
     (cat_animacy tc < cat_case tc \<and> cat_case tc < cat_gender tc \<and> cat_gender tc < cat_number tc)"

text \<open>
  A marker is registered under a category (with a value); a category is open for a
  marker when the marker is registered under it and it holds no value yet.
\<close>

definition is_registered :: "tag_converter \<Rightarrow> ustring \<Rightarrow> ustring \<Rightarrow> bool" where
  "is_registered tc category tag =
     (case tag_mapping tc category of None \<Rightarrow> False | Some table \<Rightarrow> table tag \<noteq> None)"

definition registered_as :: "tag_converter \<Rightarrow> ustring \<Rightarrow> ustring \<Rightarrow> ustring \<Rightarrow> bool" where
  "registered_as tc category tag v =
     (case tag_mapping tc category of None \<Rightarrow> False | Some table \<Rightarrow> table tag = Some v)"

definition open_for :: "tag_converter \<Rightarrow> (ustring \<times> ustring) list \<Rightarrow> ustring \<Rightarrow> ustring \<Rightarrow> bool" where
  "open_for tc ud_tags tag category =
     (is_registered tc category tag \<and> map_of ud_tags category = None)"

text \<open>The number of words of a document: the \<open>\w+\<close> matches of all its sentences.\<close>

definition total_words :: "unicode \<Rightarrow> ustring list \<Rightarrow> nat" where
  "total_words U sentences = sum_list (map (\<lambda>s. length (findall (is_word U) s)) sentences)"

text \<open>
  The shape of an output sentence: its text, the positions \<open>1..word_count+1\<close> of its
  tokens, and the synthetic final token.
\<close>

definition sentence_shape :: "unicode \<Rightarrow> ustring \<Rightarrow> ConlluSentence \<Rightarrow> bool" where
  "sentence_shape U sentence s =
     (sent_text s = sentence
      \<and> map tok_position (sent_tokens s)
          = map Some [1..<length (findall (is_word U) sentence) + 2]
      \<and> last (sent_tokens s) = punct_token (length (findall (is_word U) sentence) + 1))"

text \<open>
  The cursor of the word loop alone, over \<open>n\<close> words from position \<open>c\<close>: the position
  behind the last entry taken, or \<open>None\<close> when one of the two subscripts falls past the
  end of the stream.
\<close>

fun advance :: "unicode \<Rightarrow> entry list \<Rightarrow> nat \<Rightarrow> nat \<Rightarrow> nat option" where
  "advance U result c 0 = Some c"
| "advance U result c (Suc n) =
     (if length result \<le> c then None
      else
        let c' = (if \<not> isalnum U (entry_text (result ! c)) then c + 1 else c)
        in if length result \<le> c' then None else advance U result (c' + 1) n)"

text \<open>
  The stream is exhausted before every word of the document has its entry: it has
  fewer entries than the document has words, or the cursor falls past its end.
\<close>

definition exhausted :: "unicode \<Rightarrow> entry list \<Rightarrow> ustring list \<Rightarrow> bool" where
  "exhausted U result sentences =
     (length result < total_words U sentences
      \<or> advance U result 0 (total_words U sentences) = None)"

text \<open>The classification of every entry of a stream succeeds.\<close>

definition converts :: "(entry \<Rightarrow> py_error + MorphologicalTokenDTO) \<Rightarrow> entry list \<Rightarrow> bool" where
  "converts cl result = list_all (\<lambda>x. case cl x of Inl e \<Rightarrow> False | Inr d \<Rightarrow> True) result"

text \<open>Every value of the part-of-speech category of the mapping is a non-empty string.\<close>

definition pos_values_nonempty :: "tag_converter \<Rightarrow> bool" where
  "pos_values_nonempty tc =
     (\<forall>table p v. tag_mapping tc (cat_pos tc) = Some table \<and> table p = Some v \<longrightarrow> v \<noteq> [])"

text \<open>
  Cleaning applied again: the token whose text is its cleaned text, and the sentence of
  these tokens. A token's cleaned text is stable when it consists of word characters
  and lowercasing leaves it unchanged.
\<close>

definition cleaned_token :: "unicode \<Rightarrow> ConlluToken \<Rightarrow> ConlluToken" where
  "cleaned_token U t = t\<lparr>tok_text := get_cleaned U t\<rparr>"

definition cleaned_tokens :: "unicode \<Rightarrow> ConlluSentence \<Rightarrow> ConlluSentence" where
  "cleaned_tokens U s = s\<lparr>sent_tokens := map (cleaned_token U) (sent_tokens s)\<rparr>"

definition stable_cleaned :: "unicode \<Rightarrow> ConlluToken \<Rightarrow> bool" where
  "stable_cleaned U t =
     (list_all (is_word U) (get_cleaned U t) \<and> lower U (get_cleaned U t) = get_cleaned U t)"

text \<open>A decimal digit is neither whitespace nor a sign nor the underscore.\<close>

definition digits_plain :: "unicode \<Rightarrow> bool" where
  "digits_plain U =
     (\<forall>c. is_decimal U c \<longrightarrow> \<not> isspace_cp U c \<and> c \<noteq> 43 \<and> c \<noteq> 45 \<and> c \<noteq> 95)"

section \<open>Concrete tables for evaluation\<close>

text \<open>
  The values of the interpreter's tables on Basic Latin, on the Cyrillic letters
  \<open>U+0400\<close> to \<open>U+045F\<close>, and on \<open>U+0130\<close> (capital I with dot above, alphanumeric, whose
  lowercase is \<open>U+0069 U+0307\<close>) and \<open>U+0307\<close> (combining dot above, not alphanumeric).
  Every other code point is left unclassified and unchanged; the evaluations below
  use only code points from this fragment.
\<close>

definition lower_cp :: "nat \<Rightarrow> ustring" where
  "lower_cp c =
     (if 65 \<le> c \<and> c \<le> 90 then [c + 32]
      else if 1040 \<le> c \<and> c \<le> 1071 then [c + 32]
      else if 1024 \<le> c \<and> c \<le> 1039 then [c + 80]
      else if c = 304 then [105, 775]
      else [c])"

definition basic_unicode :: unicode where
  "basic_unicode =
     \<lparr>isalnum_cp = (\<lambda>c. (48 \<le> c \<and> c \<le> 57) \<or> (65 \<le> c \<and> c \<le> 90) \<or> (97 \<le> c \<and> c \<le> 122)
                        \<or> (1024 \<le> c \<and> c \<le> 1119) \<or> c = 304),
      isdigit_cp = (\<lambda>c. 48 \<le> c \<and> c \<le> 57),
      isspace_cp = (\<lambda>c. (9 \<le> c \<and> c \<le> 13) \<or> (28 \<le> c \<and> c \<le> 32) \<or> c = 133 \<or> c = 160),
      decimal_cp = (\<lambda>c. if 48 \<le> c \<and> c \<le> 57 then Some (c - 48) else None),
      lower = (\<lambda>s. concat (map lower_cp s))\<rparr>"

text \<open>
  A Mystem converter with a small table. The marker \<open>U+043E U+0431 U+0449\<close> is
  registered under both \<open>Number\<close> and \<open>Gender\<close>.
\<close>

definition sample_mystem :: tag_converter where
  "sample_mystem =
     \<lparr>cat_pos = ascii ''POS'', cat_case = ascii ''Case'', cat_number = ascii ''Number'',
      cat_gender = ascii ''Gender'', cat_animacy = ascii ''Animacy'',
      cat_tense = ascii ''Tense'',
      tag_mapping = map_of
        [(ascii ''POS'', map_of [(ascii ''S'', ascii ''NOUN''), (ascii ''V'', ascii ''VERB'')]),
         (ascii ''Case'', map_of [([1080, 1084], ascii ''Nom'')]),
         (ascii ''Number'',
            map_of [([1077, 1076], ascii ''Sing''), ([1084, 1085], ascii ''Plur''),
                    ([1086, 1073, 1097], ascii ''Ptan'')]),
         (ascii ''Gender'',
            map_of [([1084, 1091, 1078], ascii ''Masc''), ([1086, 1073, 1097], ascii ''Com'')]),
         (ascii ''Animacy'', map_of [([1086, 1076], ascii ''Anim'')]),
         (ascii ''Tense'', map_of [([1085, 1072, 1089, 1090], ascii ''Pres'')])]\<rparr>"

text \<open>An OpenCorpora converter with a small table, and a backup analyzer that knows
  one word.\<close>

definition sample_opencorpora :: tag_converter where
  "sample_opencorpora =
     \<lparr>cat_pos = ascii ''POS'', cat_case = ascii ''Case'', cat_number = ascii ''Number'',
      cat_gender = ascii ''Gender'', cat_animacy = ascii ''Animacy'',
      cat_tense = ascii ''Tense'',
      tag_mapping = map_of
        [(ascii ''POS'', map_of [(ascii ''NOUN'', ascii ''NOUN'')]),
         (ascii ''Case'', map_of [(ascii ''nomn'', ascii ''Nom'')]),
         (ascii ''Number'', map_of [(ascii ''sing'', ascii ''Sing'')]),
         (ascii ''Gender'', map_of [(ascii ''masc'', ascii ''Masc'')]),
         (ascii ''Animacy'', map_of [(ascii ''anim'', ascii ''Anim'')])]\<rparr>"

definition sample_noun_tag :: oc_tag where
  "sample_noun_tag =
     \<lparr>oc_POS = Some (ascii ''NOUN''), oc_animacy = Some (ascii ''anim''),
      oc_case = Some (ascii ''nomn''), oc_gender = Some (ascii ''masc''),
      oc_number = Some (ascii ''sing'')\<rparr>"

definition sample_parse :: "ustring \<Rightarrow> oc_parse list" where
  "sample_parse w = [\<lparr>normal_form = lower basic_unicode w, parse_tag = sample_noun_tag\<rparr>]"

text \<open>Two analyzer entries: a noun (\<open>S\<close>) and a verb (\<open>V\<close>) with their Mystem analyses.\<close>

definition kot_analysis :: analysis where
  "kot_analysis =
     \<lparr>lex = [1082, 1086, 1090],
      gr = ascii ''S,'' @ [1084, 1091, 1078] @ ascii '','' @ [1086, 1076] @ ascii ''=''
           @ [1080, 1084] @ ascii '','' @ [1077, 1076]\<rparr>"

definition kot_entry :: entry where
  "kot_entry = \<lparr>entry_text = [1050, 1086, 1090], entry_analysis = Some [kot_analysis]\<rparr>"

definition sidit_analysis :: analysis where
  "sidit_analysis =
     \<lparr>lex = [1089, 1080, 1076, 1077, 1090, 1100],
      gr = ascii ''V,'' @ [1085, 1077, 1089, 1086, 1074] @ ascii ''=''
           @ [1085, 1072, 1089, 1090] @ ascii '','' @ [1077, 1076]\<rparr>"

definition sidit_entry :: entry where
  "sidit_entry =
     \<lparr>entry_text = [1089, 1080, 1076, 1080, 1090], entry_analysis = Some [sidit_analysis]\<rparr>"

text \<open>A tag string with a number marker followed by the marker registered under both
  \<open>Number\<close> and \<open>Gender\<close>.\<close>

definition ambiguous_tags :: ustring where
  "ambiguous_tags = ascii ''S,'' @ [1077, 1076] @ ascii '','' @ [1086, 1073, 1097]"

text \<open>
  Entries for a space and for the final newline, a one-sentence text (\<open>U+041A U+043E
  U+0442\<close>, space, \<open>U+0441 U+0438 U+0434 U+0438 U+0442\<close>, full stop), the analyzer's
  output for it, and a sentence splitter that returns the text as its only sentence.
\<close>

definition space_entry :: entry where
  "space_entry = \<lparr>entry_text = ascii '' '', entry_analysis = None\<rparr>"

definition newline_entry :: entry where
  "newline_entry = \<lparr>entry_text = [10], entry_analysis = None\<rparr>"

definition sample_text :: ustring where
  "sample_text = [1050, 1086, 1090, 32, 1089, 1080, 1076, 1080, 1090, 46]"

definition sample_analyze :: "ustring \<Rightarrow> entry list" where
  "sample_analyze t = [kot_entry, space_entry, sidit_entry, newline_entry]"

definition one_sentence :: "ustring \<Rightarrow> ustring list" where
  "one_sentence t = [t]"

text \<open>An analyzer output with two entries only, for a text of three words.\<close>

definition three_words :: ustring where
  "three_words = [1050, 1086, 1090, 32, 1089, 1080, 1076, 1080, 1090, 32, 1090, 1091, 1090]"

definition short_analyze :: "ustring \<Rightarrow> entry list" where
  "short_analyze t = [kot_entry, sidit_entry]"

text \<open>An analyzer output with five entries for the same text, three of them spaces.\<close>

definition trailing_analyze :: "ustring \<Rightarrow> entry list" where
  "trailing_analyze t = [space_entry, kot_entry, space_entry, sidit_entry, space_entry]"

text \<open>An analyzer output with two whitespace entries in front of the word.\<close>

definition noisy_analyze :: "ustring \<Rightarrow> entry list" where
  "noisy_analyze t = [space_entry, space_entry, kot_entry]"

text \<open>A backup analyzer whose only parse carries a tag without part of speech.\<close>

definition bare_tag :: oc_tag where
  "bare_tag =
     \<lparr>oc_POS = None, oc_animacy = None, oc_case = None, oc_gender = None, oc_number = None\<rparr>"

definition bare_parse :: "ustring \<Rightarrow> oc_parse list" where
  "bare_parse w = [\<lparr>normal_form = w, parse_tag = bare_tag\<rparr>]"

text \<open>The output of both pipelines on the one-sentence text.\<close>

definition kot_token :: ConlluToken where
  "kot_token =
     \<lparr>tok_text = [1050, 1086, 1090],
      morphological_parameters =
        \<lparr>dto_lemma = [1082, 1086, 1090], dto_pos = Some (ascii ''NOUN''),
         dto_tags = ascii ''Animacy=Anim|Case=Nom|Gender=Masc|Number=Sing''\<rparr>,
      tok_position = Some 1\<rparr>"

definition sidit_token :: ConlluToken where
  "sidit_token =
     \<lparr>tok_text = [1089, 1080, 1076, 1080, 1090],
      morphological_parameters =
        \<lparr>dto_lemma = [1089, 1080, 1076, 1077, 1090, 1100], dto_pos = Some (ascii ''VERB''),
         dto_tags = ascii ''Number=Sing|Tense=Pres''\<rparr>,
      tok_position = Some 2\<rparr>"

definition sample_output :: "ConlluSentence list" where
  "sample_output =
     [\<lparr>sent_position = 0, sent_text = sample_text,
       sent_tokens = [kot_token, sidit_token, punct_token 3]\<rparr>]"

text \<open>The output of the advanced pipeline with that backup analyzer: the noun has no
  part of speech.\<close>

definition bare_kot_token :: ConlluToken where
  "bare_kot_token =
     \<lparr>tok_text = [1050, 1086, 1090],
      morphological_parameters =
        \<lparr>dto_lemma = [1050, 1086, 1090], dto_pos = None, dto_tags = []\<rparr>,
      tok_position = Some 1\<rparr>"

definition bare_sentence :: ConlluSentence where
  "bare_sentence =
     \<lparr>sent_position = 0, sent_text = sample_text,
      sent_tokens = [bare_kot_token, sidit_token, punct_token 3]\<rparr>"

text \<open>A token whose text is \<open>U+0130\<close>, the sentence of this token, and a token with a
  capital letter and a comma.\<close>

definition dotted_token :: ConlluToken where
  "dotted_token = \<lparr>tok_text = [304], morphological_parameters = default_dto, tok_position = None\<rparr>"

definition dotted_sentence :: ConlluSentence where
  "dotted_sentence = \<lparr>sent_position = 0, sent_text = [304], sent_tokens = [dotted_token]\<rparr>"

definition comma_token :: ConlluToken where
  "comma_token =
     \<lparr>tok_text = [1050, 1086, 1090, 44], morphological_parameters = default_dto,
      tok_position = None\<rparr>"

text \<open>A dataset of two articles.\<close>

definition sample_dataset :: dataset where
  "sample_dataset =
     \<lparr>path_exists = True, path_is_dir = True,
      meta_files = [\<lparr>file_name = ascii ''2_meta.json'', st_size = 10\<rparr>,
                    \<lparr>file_name = ascii ''1_meta.json'', st_size = 12\<rparr>],
      raw_files = [\<lparr>file_name = ascii ''1_raw.txt'', st_size = 100\<rparr>,
                   \<lparr>file_name = ascii ''2_raw.txt'', st_size = 7\<rparr>]\<rparr>"

section \<open>Properties\<close>

text \<open>The definitions unfolded to evaluate the model on concrete inputs.\<close>

lemmas eval_defs =
  process_def process_with_def process_advanced_def classify_def classify_advanced_def
  Let_def findall_def sub_def is_word_def is_nonword_def isalnum_def isdigit_def
  mystem_convert_pos_def mystem_convert_morphological_tags_def mystem_ud_tags_def
  oc_convert_pos_def oc_convert_morphological_tags_def oc_ud_tags_def match_def getitem_def
  is_cyrillic_small_def priority_def format_tags_def punct_token_def

lemmas sample_defs =
  basic_unicode_def lower_cp_def sample_mystem_def sample_opencorpora_def sample_noun_tag_def
  sample_parse_def kot_analysis_def kot_entry_def sidit_analysis_def sidit_entry_def
  space_entry_def newline_entry_def sample_text_def sample_analyze_def one_sentence_def
  kot_token_def sidit_token_def sample_output_def ascii_def

subsection \<open>The collected dictionary has distinct keys\<close>

lemma assign_tag_distinct:
  "assign_tag tc ud tag cats = Inr ud' \<Longrightarrow> distinct (map fst ud) \<Longrightarrow> distinct (map fst ud')"
  by (induction cats) (auto simp: distinct_update split: option.splits if_splits)

lemma collect_ud_tags_distinct:
  "collect_ud_tags tc ud tags = Inr ud' \<Longrightarrow> distinct (map fst ud) \<Longrightarrow> distinct (map fst ud')"
  by (induction tags arbitrary: ud) (auto split: sum.splits dest: assign_tag_distinct)

subsection \<open>The word loop and the sentence loop\<close>

lemma process_words_Cons:
  assumes "process_words U cl result c i (w # ws) = Inr (toks, c')"
  obtains c1 parameters rest where
    "c < length result"
    "c1 = (if isalnum U (entry_text (result ! c)) then c else c + 1)"
    "c1 < length result"
    "cl (result ! c1) = Inr parameters"
    "process_words U cl result (c1 + 1) (i + 1) ws = Inr (rest, c')"
    "toks = \<lparr>tok_text = entry_text (result ! c1), morphological_parameters = parameters,
             tok_position = Some i\<rparr> # rest"
  using assms
  by (auto simp: Let_def split: if_splits sum.splits prod.splits)

lemma process_words_shape:
  "process_words U cl result c i ws = Inr (toks, c') \<Longrightarrow>
     map tok_position toks = map Some [i..<i + length ws]
     \<and> c + length ws \<le> c' \<and> c' \<le> c + 2 * length ws
     \<and> (c \<le> length result \<longrightarrow> c' \<le> length result)"
proof (induction ws arbitrary: c i toks)
  case Nil
  then show ?case by simp
next
  case (Cons w ws)
  from Cons.prems obtain c1 parameters rest where h:
    "c < length result"
    "c1 = (if isalnum U (entry_text (result ! c)) then c else c + 1)"
    "c1 < length result"
    "process_words U cl result (c1 + 1) (i + 1) ws = Inr (rest, c')"
    "toks = \<lparr>tok_text = entry_text (result ! c1), morphological_parameters = parameters,
             tok_position = Some i\<rparr> # rest"
    by (rule process_words_Cons)
  from Cons.IH [OF h(4)] have ih:
    "map tok_position rest = map Some [i + 1..<i + 1 + length ws]"
    "c1 + 1 + length ws \<le> c'" "c' \<le> c1 + 1 + 2 * length ws" "c' \<le> length result"
    using h(3) by simp_all
  have "[i..<i + length (w # ws)] = i # [i + 1..<i + 1 + length ws]"
    by (simp add: upt_rec)
  with h ih show ?case
    by (auto split: if_splits)
qed

lemma process_words_error:
  "process_words U cl result c i ws = Inl e \<Longrightarrow> e = IndexError \<or> (\<exists>x \<in> set result. cl x = Inl e)"
proof (induction ws arbitrary: c i)
  case Nil
  then show ?case by simp
next
  case (Cons w ws)
  then show ?case
    by (auto simp: Let_def split: if_splits sum.splits prod.splits) 
qed


lemma process_words_params:
  "process_words U cl result c i ws = Inr (toks, c') \<Longrightarrow>
     \<forall>t \<in> set toks. \<exists>x \<in> set result.
        cl x = Inr (morphological_parameters t) \<and> tok_text t = entry_text x"
proof (induction ws arbitrary: c i toks)
  case Nil
  then show ?case by simp
next
  case (Cons w ws)
  from Cons.prems obtain c1 parameters rest where h:
    "c1 < length result"
    "cl (result ! c1) = Inr parameters"
    "process_words U cl result (c1 + 1) (i + 1) ws = Inr (rest, c')"
    "toks = \<lparr>tok_text = entry_text (result ! c1), morphological_parameters = parameters,
             tok_position = Some i\<rparr> # rest"
    by (rule process_words_Cons)
  from h(1) have "result ! c1 \<in> set result" by simp
  with h(2) h(4) Cons.IH [OF h(3)] show ?case by auto
qed

lemma process_sentences_Cons:
  assumes "process_sentences U cl result c ind (s # ss) = Inr sents"
  obtains toks n rest where
    "process_words U cl result c 1 (findall (is_word U) s) = Inr (toks, n)"
    "process_sentences U cl result n (ind + 1) ss = Inr rest"
    "sents = \<lparr>sent_position = ind, sent_text = s,
              sent_tokens = toks @ [punct_token (length (findall (is_word U) s) + 1)]\<rparr> # rest"
  using assms
  by (auto simp: Let_def split: sum.splits prod.splits)

lemma process_sentences_shape:
  "process_sentences U cl result c ind ss = Inr sents \<Longrightarrow>
     list_all2 (sentence_shape U) ss sents \<and> map sent_position sents = [ind..<ind + length ss]"
proof (induction ss arbitrary: c ind sents)
  case Nil
  then show ?case by simp
next
  case (Cons s ss)
  let ?n = "length (findall (is_word U) s)"
  from Cons.prems obtain toks n rest where h:
    "process_words U cl result c 1 (findall (is_word U) s) = Inr (toks, n)"
    "process_sentences U cl result n (ind + 1) ss = Inr rest"
    "sents = \<lparr>sent_position = ind, sent_text = s,
              sent_tokens = toks @ [punct_token (?n + 1)]\<rparr> # rest"
    by (rule process_sentences_Cons)
  from process_words_shape [OF h(1)] have "map tok_position toks = map Some [1..<1 + ?n]"
    by simp
  then have "map tok_position (toks @ [punct_token (?n + 1)]) = map Some [1..<?n + 2]"
    by (simp add: punct_token_def)
  then have "sentence_shape U s
      \<lparr>sent_position = ind, sent_text = s, sent_tokens = toks @ [punct_token (?n + 1)]\<rparr>"
    by (simp add: sentence_shape_def)
  moreover from Cons.IH [OF h(2)] have "list_all2 (sentence_shape U) ss rest"
    and "map sent_position rest = [ind + 1..<ind + 1 + length ss]"
    by simp_all
  moreover have "[ind..<ind + length (s # ss)] = ind # [ind + 1..<ind + 1 + length ss]"
    by (simp add: upt_rec)
  ultimately show ?case using h(3) by simp
qed

lemma process_sentences_error:
  "process_sentences U cl result c ind ss = Inl e
    \<Longrightarrow> e = IndexError \<or> (\<exists>x \<in> set result. cl x = Inl e)"
proof (induction ss arbitrary: c ind)
  case Nil
  then show ?case by simp
next
  case (Cons s ss)
  then show ?case
    by (auto simp: Let_def split: sum.splits prod.splits dest: process_words_error)
qed

lemma process_sentences_params:
  "process_sentences U cl result c ind ss = Inr sents \<Longrightarrow>
     \<forall>s \<in> set sents. \<forall>t \<in> set (sent_tokens s).
        (\<exists>n. t = punct_token n)
        \<or> (\<exists>x \<in> set result. cl x = Inr (morphological_parameters t) \<and> tok_text t = entry_text x)"
proof (induction ss arbitrary: c ind sents)
  case Nil
  then show ?case by simp
next
  case (Cons s ss)
  from Cons.prems obtain toks n rest where h:
    "process_words U cl result c 1 (findall (is_word U) s) = Inr (toks, n)"
    "process_sentences U cl result n (ind + 1) ss = Inr rest"
    "sents = \<lparr>sent_position = ind, sent_text = s,
              sent_tokens = toks @ [punct_token (length (findall (is_word U) s) + 1)]\<rparr> # rest"
    by (rule process_sentences_Cons)
  from process_words_params [OF h(1)] Cons.IH [OF h(2)] h(3) show ?case
    by auto
qed

subsection \<open>Skipping non-alphanumeric entries\<close>

text \<open>
  C1 (as amended). For every word, in both pipelines, the cursor is moved by a single
  conditional step: when the entry at the cursor is not alphanumeric the cursor
  advances by one, once, and the entry then at the cursor is taken for the word,
  alphanumeric or not; the next word starts behind the taken entry. So each word
  consumes one entry and skips at most one.
\<close>

theorem single_step_skip:
  "(process_words U cl result c i (word # words) = Inr (toks, c')
      \<longrightarrow> (\<exists>c1 rest.
            c1 = (if isalnum U (entry_text (result ! c)) then c else c + 1)
            \<and> c < length result \<and> c1 < length result
            \<and> cl (result ! c1) = Inr (morphological_parameters (hd toks))
            \<and> tok_text (hd toks) = entry_text (result ! c1)
            \<and> tok_position (hd toks) = Some i
            \<and> toks = hd toks # rest
            \<and> process_words U cl result (c1 + 1) (i + 1) words = Inr (rest, c')))
   \<and> (process_words U cl result c i ws = Inr (toks', c'')
      \<longrightarrow> c + length ws \<le> c'' \<and> c'' \<le> c + 2 * length ws)"
proof (intro conjI impI)
  assume "process_words U cl result c i (word # words) = Inr (toks, c')"
  then obtain c1 parameters rest where
    "c < length result"
    "c1 = (if isalnum U (entry_text (result ! c)) then c else c + 1)"
    "c1 < length result"
    "cl (result ! c1) = Inr parameters"
    "process_words U cl result (c1 + 1) (i + 1) words = Inr (rest, c')"
    "toks = \<lparr>tok_text = entry_text (result ! c1), morphological_parameters = parameters,
             tok_position = Some i\<rparr> # rest"
    by (rule process_words_Cons)
  then show "\<exists>c1 rest.
            c1 = (if isalnum U (entry_text (result ! c)) then c else c + 1)
            \<and> c < length result \<and> c1 < length result
            \<and> cl (result ! c1) = Inr (morphological_parameters (hd toks))
            \<and> tok_text (hd toks) = entry_text (result ! c1)
            \<and> tok_position (hd toks) = Some i
            \<and> toks = hd toks # rest
            \<and> process_words U cl result (c1 + 1) (i + 1) words = Inr (rest, c')"
    by simp
next
  assume "process_words U cl result c i ws = Inr (toks', c'')"
  from process_words_shape [OF this] show "c + length ws \<le> c''" by simp
next
  assume "process_words U cl result c i ws = Inr (toks', c'')"
  from process_words_shape [OF this] show "c'' \<le> c + 2 * length ws" by simp
qed

theorem single_step_skip_witness:
  "process_words basic_unicode (classify basic_unicode sample_mystem)
       [kot_entry, space_entry, sidit_entry, newline_entry] 1 2
       ([1089, 1080, 1076, 1080, 1090] # [])
     = Inr ([sidit_token], 3)
   \<and> (\<exists>c1 rest.
         c1 = (if isalnum basic_unicode
                    (entry_text ([kot_entry, space_entry, sidit_entry, newline_entry] ! 1))
               then 1 else 1 + 1)
         \<and> 1 < length [kot_entry, space_entry, sidit_entry, newline_entry]
         \<and> c1 < length [kot_entry, space_entry, sidit_entry, newline_entry]
         \<and> classify basic_unicode sample_mystem
              ([kot_entry, space_entry, sidit_entry, newline_entry] ! c1)
             = Inr (morphological_parameters (hd [sidit_token]))
         \<and> tok_text (hd [sidit_token])
             = entry_text ([kot_entry, space_entry, sidit_entry, newline_entry] ! c1)
         \<and> tok_position (hd [sidit_token]) = Some 2
         \<and> [sidit_token] = hd [sidit_token] # rest
         \<and> process_words basic_unicode (classify basic_unicode sample_mystem)
              [kot_entry, space_entry, sidit_entry, newline_entry] (c1 + 1) (2 + 1) []
             = Inr (rest, 3))
   \<and> 1 + length [[1089, 1080, 1076, 1080, 1090 :: nat]] \<le> 3
   \<and> 3 \<le> 1 + 2 * length [[1089, 1080, 1076, 1080, 1090 :: nat]]"
proof -
  have run: "process_words basic_unicode (classify basic_unicode sample_mystem)
       [kot_entry, space_entry, sidit_entry, newline_entry] 1 2
       ([1089, 1080, 1076, 1080, 1090] # [])
     = Inr ([sidit_token], 3)"
    by (simp add: eval_defs sample_defs)
  note t = single_step_skip [of basic_unicode "classify basic_unicode sample_mystem"
      "[kot_entry, space_entry, sidit_entry, newline_entry]" 1 2 "[1089, 1080, 1076, 1080, 1090]"
      "[]" "[sidit_token]" 3 "[[1089, 1080, 1076, 1080, 1090]]" "[sidit_token]" 3]
  note b = mp [OF conjunct2 [OF t] run]
  from run mp [OF conjunct1 [OF t] run] conjunct1 [OF b] conjunct2 [OF b]
  show ?thesis by (intro conjI)
qed

text \<open>
  C1 as stated fails on a run of two non-alphanumeric entries in front of a word: only
  the first is skipped, the second is taken as the word's analysis, and the word's own
  entry is never reached.
\<close>

theorem run_of_two_counterexample:
  "map entry_text (noisy_analyze (sub (is_nonword basic_unicode) (ascii '' '') [1050, 1086, 1090]))
     = [ascii '' '', ascii '' '', [1050, 1086, 1090]]
   \<and> findall (is_word basic_unicode) [1050, 1086, 1090] = [[1050, 1086, 1090]]
   \<and> process basic_unicode sample_mystem noisy_analyze one_sentence [1050, 1086, 1090]
     = Inr [\<lparr>sent_position = 0, sent_text = [1050, 1086, 1090],
             sent_tokens =
               [\<lparr>tok_text = ascii '' '',
                  morphological_parameters =
                    \<lparr>dto_lemma = ascii '' '', dto_pos = Some (ascii ''X''), dto_tags = []\<rparr>,
                  tok_position = Some 1\<rparr>,
                \<lparr>tok_text = ascii ''.'',
                  morphological_parameters =
                    \<lparr>dto_lemma = ascii ''.'', dto_pos = Some (ascii ''PUNCT''), dto_tags = []\<rparr>,
                  tok_position = Some 2\<rparr>]\<rparr>]"
  by (simp add: noisy_analyze_def eval_defs sample_defs)

subsection \<open>An exhausted analyzer stream\<close>

lemma advance_words:
  "process_words U cl result c i ws = Inr (toks, c') \<Longrightarrow> advance U result c (length ws) = Some c'"
proof (induction ws arbitrary: c i toks)
  case Nil
  then show ?case by simp
next
  case (Cons w ws)
  from Cons.prems obtain c1 parameters rest where h:
    "c < length result"
    "c1 = (if isalnum U (entry_text (result ! c)) then c else c + 1)"
    "c1 < length result"
    "process_words U cl result (c1 + 1) (i + 1) ws = Inr (rest, c')"
    by (rule process_words_Cons)
  from Cons.IH [OF h(4)] h(1-3) show ?case
    by (auto simp: Let_def)
qed

lemma advance_add:
  "advance U result c (m + n)
     = (case advance U result c m of None \<Rightarrow> None | Some c' \<Rightarrow> advance U result c' n)"
  by (induction m arbitrary: c) (auto simp: Let_def)

lemma advance_sentences:
  "process_sentences U cl result c ind ss = Inr sents
    \<Longrightarrow> \<exists>c'. advance U result c (total_words U ss) = Some c'"
proof (induction ss arbitrary: c ind sents)
  case Nil
  then show ?case by (simp add: total_words_def)
next
  case (Cons s ss)
  from Cons.prems obtain toks n rest where h:
    "process_words U cl result c 1 (findall (is_word U) s) = Inr (toks, n)"
    "process_sentences U cl result n (ind + 1) ss = Inr rest"
    by (rule process_sentences_Cons)
  from Cons.IH [OF h(2)] obtain c' where "advance U result n (total_words U ss) = Some c'"
    by blast
  moreover have "total_words U (s # ss) = length (findall (is_word U) s) + total_words U ss"
    by (simp add: total_words_def)
  ultimately show ?case
    using advance_words [OF h(1)] by (simp add: advance_add)
qed

lemma advance_short:
  "length result < c + n \<Longrightarrow> c \<le> length result \<Longrightarrow> advance U result c n = None"
  by (induction n arbitrary: c) (auto simp: Let_def)

text \<open>
  C2. When the analyzer's stream is exhausted before every word of the document has its
  entry (it has fewer entries than the document has words, or the cursor falls past
  its end), both pipelines fail and return no sentence at all. The failure is the
  \<open>IndexError\<close> of the subscript past the end of the stream (the source has no
  exception class of its own for it) whenever the classification of the stream's
  entries succeeds, that is, unless a failing tag conversion has stopped the document
  before the cursor reaches the end.
\<close>

theorem short_stream_fails:
  assumes "exhausted U (analyze (sub (is_nonword U) (ascii '' '') txt)) (split_by_sentence txt)"
  shows "(\<exists>e. process U tc analyze split_by_sentence txt = Inl e)
     \<and> (\<exists>e. process_advanced U tc btc parse analyze split_by_sentence txt = Inl e)
     \<and> (converts (classify U tc) (analyze (sub (is_nonword U) (ascii '' '') txt))
          \<longrightarrow> process U tc analyze split_by_sentence txt = Inl IndexError)
     \<and> (converts (classify_advanced U tc btc parse)
            (analyze (sub (is_nonword U) (ascii '' '') txt))
          \<longrightarrow> process_advanced U tc btc parse analyze split_by_sentence txt = Inl IndexError)"
proof -
  let ?result = "analyze (sub (is_nonword U) (ascii '' '') txt)"
  let ?n = "total_words U (split_by_sentence txt)"
  from assms have none: "advance U ?result 0 ?n = None"
    unfolding exhausted_def using advance_short [of ?result 0 ?n U] by auto
  have fails: "\<exists>e. process_with U cl analyze split_by_sentence txt = Inl e" for cl
  proof (cases "process_with U cl analyze split_by_sentence txt")
    case (Inl e)
    then show ?thesis by blast
  next
    case (Inr sents)
    then have "\<exists>c'. advance U ?result 0 ?n = Some c'"
      unfolding process_with_def by (rule advance_sentences)
    with none show ?thesis by simp
  qed
  have index: "process_with U cl analyze split_by_sentence txt = Inl IndexError"
    if "converts cl ?result" for cl
  proof -
    from fails obtain e where e: "process_with U cl analyze split_by_sentence txt = Inl e"
      by blast
    then have "e = IndexError \<or> (\<exists>x \<in> set ?result. cl x = Inl e)"
      unfolding process_with_def by (rule process_sentences_error)
    moreover from that have "\<forall>x \<in> set ?result. \<forall>e. cl x \<noteq> Inl e"
      by (auto simp: converts_def list_all_iff split: sum.splits)
    ultimately show ?thesis using e by blast
  qed
  from fails index show ?thesis
    unfolding process_def process_advanced_def by blast
qed

theorem short_stream_fails_witness:
  "length (short_analyze (sub (is_nonword basic_unicode) (ascii '' '') three_words)) = 2
   \<and> total_words basic_unicode (one_sentence three_words) = 3
   \<and> exhausted basic_unicode
        (short_analyze (sub (is_nonword basic_unicode) (ascii '' '') three_words))
        (one_sentence three_words)
   \<and> converts (classify basic_unicode sample_mystem)
       (short_analyze (sub (is_nonword basic_unicode) (ascii '' '') three_words))
   \<and> converts (classify_advanced basic_unicode sample_mystem sample_opencorpora sample_parse)
       (short_analyze (sub (is_nonword basic_unicode) (ascii '' '') three_words))
   \<and> process basic_unicode sample_mystem short_analyze one_sentence three_words
       = Inl IndexError
   \<and> process_advanced basic_unicode sample_mystem sample_opencorpora sample_parse
       short_analyze one_sentence three_words = Inl IndexError
   \<and> length (trailing_analyze (sub (is_nonword basic_unicode) (ascii '' '') three_words)) = 5
   \<and> exhausted basic_unicode
        (trailing_analyze (sub (is_nonword basic_unicode) (ascii '' '') three_words))
        (one_sentence three_words)
   \<and> converts (classify basic_unicode sample_mystem)
       (trailing_analyze (sub (is_nonword basic_unicode) (ascii '' '') three_words))
   \<and> process basic_unicode sample_mystem trailing_analyze one_sentence three_words
       = Inl IndexError"
proof -
  note defs = total_words_def converts_def exhausted_def three_words_def short_analyze_def
    trailing_analyze_def eval_defs sample_defs
  have l: "length (short_analyze (sub (is_nonword basic_unicode) (ascii '' '') three_words)) = 2"
    by (simp add: short_analyze_def)
  have n: "total_words basic_unicode (one_sentence three_words) = 3"
    by (simp add: defs)
  have x: "exhausted basic_unicode
             (short_analyze (sub (is_nonword basic_unicode) (ascii '' '') three_words))
             (one_sentence three_words)"
    unfolding exhausted_def l n by simp
  have c: "converts (classify basic_unicode sample_mystem)
             (short_analyze (sub (is_nonword basic_unicode) (ascii '' '') three_words))"
    by (simp add: defs)
  have c': "converts (classify_advanced basic_unicode sample_mystem sample_opencorpora
               sample_parse)
             (short_analyze (sub (is_nonword basic_unicode) (ascii '' '') three_words))"
    by (simp add: defs)
  have l2: "length (trailing_analyze (sub (is_nonword basic_unicode) (ascii '' '') three_words))
              = 5"
    by (simp add: trailing_analyze_def)
  have x2: "exhausted basic_unicode
              (trailing_analyze (sub (is_nonword basic_unicode) (ascii '' '') three_words))
              (one_sentence three_words)"
    unfolding exhausted_def n
    by (simp add: trailing_analyze_def eval_nat_numeral Let_def isalnum_def sample_defs)
  have c2: "converts (classify basic_unicode sample_mystem)
              (trailing_analyze (sub (is_nonword basic_unicode) (ascii '' '') three_words))"
    by (simp add: defs)
  note t = short_stream_fails [of basic_unicode short_analyze three_words one_sentence
      sample_mystem sample_opencorpora sample_parse, OF x]
  note t2 = short_stream_fails [of basic_unicode trailing_analyze three_words one_sentence
      sample_mystem sample_opencorpora sample_parse, OF x2]
  from l n x c c' mp [OF conjunct1 [OF conjunct2 [OF conjunct2 [OF t]]] c]
    mp [OF conjunct2 [OF conjunct2 [OF conjunct2 [OF t]]] c']
    l2 x2 c2 mp [OF conjunct1 [OF conjunct2 [OF conjunct2 [OF t2]]] c2]
  show ?thesis by (intro conjI)
qed

subsection \<open>Escalation to the backup analyzer\<close>

text \<open>
  C3. In the advanced pipeline, for an entry with at least one candidate analysis whose
  Mystem tag converts to the part of speech \<open>pos\<close>: when \<open>pos\<close> is \<open>NOUN\<close>, the lemma is
  the normal form of the backup analyzer's first parse and part of speech and
  features are that parse's tag converted by the backup converter, whatever lemma
  Mystem gave; for any other \<open>pos\<close> the result is the one of the basic pipeline, that
  is Mystem's lemma, \<open>pos\<close> and Mystem's converted features.
\<close>

theorem advanced_noun_escalation:
  assumes "entry_analysis ac = Some (a # rest)"
    and "mystem_convert_pos U tc (gr a) = Inr pos"
  shows "(pos = ascii ''NOUN'' \<and> parse (entry_text ac) = p # ps
            \<and> oc_convert_pos btc (parse_tag p) = Inr pos'
            \<and> oc_convert_morphological_tags btc (parse_tag p) = Inr tags
          \<longrightarrow> (\<forall>l. classify_advanced U tc btc parse
                      (ac\<lparr>entry_analysis := Some (a\<lparr>lex := l\<rparr> # rest)\<rparr>)
                    = Inr \<lparr>dto_lemma = normal_form p, dto_pos = pos', dto_tags = tags\<rparr>))
       \<and> (pos \<noteq> ascii ''NOUN''
          \<longrightarrow> classify_advanced U tc btc parse ac = classify U tc ac
              \<and> (\<forall>tags. mystem_convert_morphological_tags tc (gr a) = Inr tags
                    \<longrightarrow> classify_advanced U tc btc parse ac
                        = Inr \<lparr>dto_lemma = lex a, dto_pos = Some pos, dto_tags = tags\<rparr>))"
  using assms by (auto simp: classify_advanced_def classify_def)

theorem advanced_noun_escalation_witness:
  "classify_advanced basic_unicode sample_mystem sample_opencorpora sample_parse
       (kot_entry\<lparr>entry_analysis := Some [kot_analysis\<lparr>lex := ascii ''cat''\<rparr>]\<rparr>)
     = Inr \<lparr>dto_lemma = [1082, 1086, 1090], dto_pos = Some (ascii ''NOUN''),
            dto_tags = ascii ''Animacy=Anim|Case=Nom|Gender=Masc|Number=Sing''\<rparr>
   \<and> classify_advanced basic_unicode sample_mystem sample_opencorpora sample_parse sidit_entry
     = classify basic_unicode sample_mystem sidit_entry
   \<and> classify_advanced basic_unicode sample_mystem sample_opencorpora sample_parse sidit_entry
     = Inr \<lparr>dto_lemma = [1089, 1080, 1076, 1077, 1090, 1100], dto_pos = Some (ascii ''VERB''),
            dto_tags = ascii ''Number=Sing|Tense=Pres''\<rparr>"
proof -
  have k1: "entry_analysis kot_entry = Some (kot_analysis # [])"
    by (simp add: kot_entry_def)
  have k2: "mystem_convert_pos basic_unicode sample_mystem (gr kot_analysis) = Inr (ascii ''NOUN'')"
    by (simp add: mystem_convert_pos_def match_def is_word_def getitem_def sample_defs)
  have k3: "sample_parse (entry_text kot_entry)
              = \<lparr>normal_form = [1082, 1086, 1090], parse_tag = sample_noun_tag\<rparr> # []"
    by (simp add: sample_parse_def kot_entry_def basic_unicode_def lower_cp_def)
  have k4: "oc_convert_pos sample_opencorpora sample_noun_tag = Inr (Some (ascii ''NOUN''))"
    by (simp add: oc_convert_pos_def getitem_def sample_defs)
  have k5: "oc_convert_morphological_tags sample_opencorpora sample_noun_tag
              = Inr (ascii ''Animacy=Anim|Case=Nom|Gender=Masc|Number=Sing'')"
    by (simp add: oc_convert_morphological_tags_def oc_ud_tags_def getitem_def format_tags_def
          sample_defs)
  have s1: "entry_analysis sidit_entry = Some (sidit_analysis # [])"
    by (simp add: sidit_entry_def)
  have s2: "mystem_convert_pos basic_unicode sample_mystem (gr sidit_analysis)
              = Inr (ascii ''VERB'')"
    by (simp add: mystem_convert_pos_def match_def is_word_def getitem_def sample_defs)
  have s3: "ascii ''VERB'' \<noteq> ascii ''NOUN''"
    by (simp add: ascii_def)
  have s4: "mystem_convert_morphological_tags sample_mystem (gr sidit_analysis)
              = Inr (ascii ''Number=Sing|Tense=Pres'')"
    by (simp add: mystem_convert_morphological_tags_def mystem_ud_tags_def findall_def
          is_cyrillic_small_def priority_def format_tags_def sample_defs)
  have s5: "lex sidit_analysis = [1089, 1080, 1076, 1077, 1090, 1100]"
    by (simp add: sidit_analysis_def)
  have a1: "classify_advanced basic_unicode sample_mystem sample_opencorpora sample_parse
              (kot_entry\<lparr>entry_analysis := Some [kot_analysis\<lparr>lex := ascii ''cat''\<rparr>]\<rparr>)
            = Inr \<lparr>dto_lemma = [1082, 1086, 1090], dto_pos = Some (ascii ''NOUN''),
                   dto_tags = ascii ''Animacy=Anim|Case=Nom|Gender=Masc|Number=Sing''\<rparr>"
    using advanced_noun_escalation [OF k1 k2, of sample_parse
        "\<lparr>normal_form = [1082, 1086, 1090], parse_tag = sample_noun_tag\<rparr>" "[]"
        sample_opencorpora "Some (ascii ''NOUN'')"
        "ascii ''Animacy=Anim|Case=Nom|Gender=Masc|Number=Sing''"] k3 k4 k5
    by simp
  note verb = advanced_noun_escalation [OF s1 s2, of sample_parse _ _ sample_opencorpora]
  note v = mp [OF conjunct2 [OF verb] s3]
  have b1: "classify_advanced basic_unicode sample_mystem sample_opencorpora sample_parse
              sidit_entry
            = classify basic_unicode sample_mystem sidit_entry"
    by (rule conjunct1 [OF v])
  have b2: "classify_advanced basic_unicode sample_mystem sample_opencorpora sample_parse
              sidit_entry
            = Inr \<lparr>dto_lemma = lex sidit_analysis, dto_pos = Some (ascii ''VERB''),
                   dto_tags = ascii ''Number=Sing|Tense=Pres''\<rparr>"
    by (rule mp [OF spec [OF conjunct2 [OF v]] s4])
  show ?thesis
    using a1 b1 b2 s5 by simp
qed

subsection \<open>Priority of the categories\<close>

lemma map_of_None_update:
  "map_of al k = None \<Longrightarrow> AList.update k v al = al @ [(k, v)]"
  by (induction al) (auto split: if_splits)

lemma assign_tag_first:
  "assign_tag tc ud tag cats = Inr ud' \<Longrightarrow>
     (ud' = ud \<and> \<not> list_ex (open_for tc ud tag) cats)
     \<or> (\<exists>pre c post v. cats = pre @ c # post \<and> \<not> list_ex (open_for tc ud tag) pre
           \<and> registered_as tc c tag v \<and> map_of ud c = None \<and> ud' = ud @ [(c, v)])"
proof (induction cats)
  case Nil
  then show ?case by simp
next
  case (Cons c cats)
  show ?case
  proof (cases "open_for tc ud tag c")
    case True
    then obtain table v where t: "tag_mapping tc c = Some table" "table tag = Some v"
      and free: "map_of ud c = None"
      by (auto simp: open_for_def is_registered_def split: option.splits)
    with Cons.prems have "ud' = ud @ [(c, v)]"
      by (simp add: map_of_None_update)
    with t free have "c # cats = [] @ c # cats \<and> \<not> list_ex (open_for tc ud tag) []
        \<and> registered_as tc c tag v \<and> map_of ud c = None \<and> ud' = ud @ [(c, v)]"
      by (simp add: registered_as_def)
    then show ?thesis by blast
  next
    case False
    with Cons.prems have rest: "assign_tag tc ud tag cats = Inr ud'"
      by (auto simp: open_for_def is_registered_def split: option.splits if_splits)
    from Cons.IH [OF rest] show ?thesis
    proof
      assume "ud' = ud \<and> \<not> list_ex (open_for tc ud tag) cats"
      with False show ?thesis by simp
    next
      assume "\<exists>pre c post v. cats = pre @ c # post \<and> \<not> list_ex (open_for tc ud tag) pre
           \<and> registered_as tc c tag v \<and> map_of ud c = None \<and> ud' = ud @ [(c, v)]"
      then obtain pre d post v where h: "cats = pre @ d # post"
          "\<not> list_ex (open_for tc ud tag) pre" "registered_as tc d tag v"
          "map_of ud d = None" "ud' = ud @ [(d, v)]"
        by blast
      with False have "c # cats = (c # pre) @ d # post
          \<and> \<not> list_ex (open_for tc ud tag) (c # pre)
          \<and> registered_as tc d tag v \<and> map_of ud d = None \<and> ud' = ud @ [(d, v)]"
        by simp
      then show ?thesis by blast
    qed
  qed
qed

lemma assign_tag_keeps:
  "assign_tag tc ud tag cats = Inr ud' \<Longrightarrow> map_of ud c = Some v \<Longrightarrow> map_of ud' c = Some v"
  by (induction cats) (auto simp: update_conv' split: option.splits if_splits)

lemma collect_ud_tags_keeps:
  "collect_ud_tags tc ud tags = Inr ud' \<Longrightarrow> map_of ud c = Some v \<Longrightarrow> map_of ud' c = Some v"
  by (induction tags arbitrary: ud) (auto split: sum.splits dest: assign_tag_keeps)


lemma assign_tag_earlier:
  "open_for tc ud tag c1 \<Longrightarrow> assign_tag tc ud tag (pre @ c1 # post) = Inr ud'
    \<Longrightarrow> \<exists>c v. c \<in> set (pre @ [c1]) \<and> ud' = ud @ [(c, v)]"
proof (induction pre)
  case Nil
  then show ?case
    by (auto simp: open_for_def is_registered_def map_of_None_update split: option.splits)
next
  case (Cons c pre)
  show ?case
  proof (cases "open_for tc ud tag c")
    case True
    with Cons.prems(2) show ?thesis
      by (auto simp: open_for_def is_registered_def map_of_None_update split: option.splits)
  next
    case False
    with Cons.prems(2) have "assign_tag tc ud tag (pre @ c1 # post) = Inr ud'"
      by (auto simp: open_for_def is_registered_def split: option.splits if_splits)
    from Cons.IH [OF Cons.prems(1) this] show ?thesis by auto
  qed
qed

text \<open>
  C4 (as amended). For one marker, the categories are tried in the order case, number,
  gender, animacy, tense: either no category is open for the marker and the
  dictionary is unchanged, or the marker's value is stored under the first category
  that is open for it. Hence, when an earlier category is open for the marker, no
  other category later in the order receives a value from it. Over the whole tag
  string every category holds at most one value, and a value once stored is never
  replaced.
\<close>

theorem mystem_category_priority:
  "(assign_tag tc ud_tags tag
        [cat_case tc, cat_number tc, cat_gender tc, cat_animacy tc, cat_tense tc] = Inr ud'
      \<longrightarrow> (ud' = ud_tags \<and> \<not> list_ex (open_for tc ud_tags tag) (priority tc))
          \<or> (\<exists>pre c post v.
                [cat_case tc, cat_number tc, cat_gender tc, cat_animacy tc, cat_tense tc]
                  = pre @ c # post
                \<and> \<not> list_ex (open_for tc ud_tags tag) pre
                \<and> registered_as tc c tag v \<and> map_of ud_tags c = None
                \<and> ud' = ud_tags @ [(c, v)]))
   \<and> (priority tc = pre1 @ c1 # post1 \<and> open_for tc ud1 tag1 c1 \<and> c2 \<notin> set (pre1 @ [c1])
        \<and> map_of ud1 c2 = None \<and> assign_tag tc ud1 tag1 (priority tc) = Inr ud1'
      \<longrightarrow> map_of ud1' c2 = None)
   \<and> (mystem_ud_tags tc tags = Inr ud \<longrightarrow> distinct (map fst ud))
   \<and> (collect_ud_tags tc ud2 extracted_tags = Inr ud2' \<and> map_of ud2 c3 = Some v3
      \<longrightarrow> map_of ud2' c3 = Some v3)"
proof (intro conjI impI)
  assume "assign_tag tc ud_tags tag
        [cat_case tc, cat_number tc, cat_gender tc, cat_animacy tc, cat_tense tc] = Inr ud'"
  from assign_tag_first [OF this]
  show "(ud' = ud_tags \<and> \<not> list_ex (open_for tc ud_tags tag) (priority tc))
          \<or> (\<exists>pre c post v.
                [cat_case tc, cat_number tc, cat_gender tc, cat_animacy tc, cat_tense tc]
                  = pre @ c # post
                \<and> \<not> list_ex (open_for tc ud_tags tag) pre
                \<and> registered_as tc c tag v \<and> map_of ud_tags c = None
                \<and> ud' = ud_tags @ [(c, v)])"
    by (simp only: priority_def)
next
  assume h: "priority tc = pre1 @ c1 # post1 \<and> open_for tc ud1 tag1 c1
      \<and> c2 \<notin> set (pre1 @ [c1]) \<and> map_of ud1 c2 = None
      \<and> assign_tag tc ud1 tag1 (priority tc) = Inr ud1'"
  then have p: "priority tc = pre1 @ c1 # post1"
    and a: "assign_tag tc ud1 tag1 (priority tc) = Inr ud1'"
    by blast+
  from a have "assign_tag tc ud1 tag1 (pre1 @ c1 # post1) = Inr ud1'"
    unfolding p .
  with h obtain c v where "c \<in> set (pre1 @ [c1])" "ud1' = ud1 @ [(c, v)]"
    using assign_tag_earlier by blast
  with h show "map_of ud1' c2 = None" by auto
next
  assume "mystem_ud_tags tc tags = Inr ud"
  then show "distinct (map fst ud)"
    unfolding mystem_ud_tags_def by (rule collect_ud_tags_distinct) simp
next
  assume "collect_ud_tags tc ud2 extracted_tags = Inr ud2' \<and> map_of ud2 c3 = Some v3"
  then show "map_of ud2' c3 = Some v3"
    using collect_ud_tags_keeps by blast
qed

theorem mystem_category_priority_witness:
  "assign_tag sample_mystem [(ascii ''Number'', ascii ''Sing'')] [1086, 1073, 1097]
       [cat_case sample_mystem, cat_number sample_mystem, cat_gender sample_mystem,
        cat_animacy sample_mystem, cat_tense sample_mystem]
     = Inr [(ascii ''Number'', ascii ''Sing''), (ascii ''Gender'', ascii ''Com'')]
   \<and> (([(ascii ''Number'', ascii ''Sing''), (ascii ''Gender'', ascii ''Com'')]
          = [(ascii ''Number'', ascii ''Sing'')]
        \<and> \<not> list_ex (open_for sample_mystem [(ascii ''Number'', ascii ''Sing'')]
                 [1086, 1073, 1097]) (priority sample_mystem))
      \<or> (\<exists>pre c post v.
            [cat_case sample_mystem, cat_number sample_mystem, cat_gender sample_mystem,
             cat_animacy sample_mystem, cat_tense sample_mystem] = pre @ c # post
            \<and> \<not> list_ex (open_for sample_mystem [(ascii ''Number'', ascii ''Sing'')]
                     [1086, 1073, 1097]) pre
            \<and> registered_as sample_mystem c [1086, 1073, 1097] v
            \<and> map_of [(ascii ''Number'', ascii ''Sing'')] c = None
            \<and> [(ascii ''Number'', ascii ''Sing''), (ascii ''Gender'', ascii ''Com'')]
                = [(ascii ''Number'', ascii ''Sing'')] @ [(c, v)]))
   \<and> priority sample_mystem
       = [ascii ''Case''] @ ascii ''Number'' # [ascii ''Gender'', ascii ''Animacy'', ascii ''Tense'']
   \<and> open_for sample_mystem [] [1086, 1073, 1097] (ascii ''Number'')
   \<and> assign_tag sample_mystem [] [1086, 1073, 1097] (priority sample_mystem)
       = Inr [(ascii ''Number'', ascii ''Ptan'')]
   \<and> map_of [(ascii ''Number'', ascii ''Ptan'')] (ascii ''Gender'') = None
   \<and> mystem_ud_tags sample_mystem ambiguous_tags
       = Inr [(ascii ''Number'', ascii ''Sing''), (ascii ''Gender'', ascii ''Com'')]
   \<and> distinct (map fst [(ascii ''Number'', ascii ''Sing''), (ascii ''Gender'', ascii ''Com'')])
   \<and> collect_ud_tags sample_mystem [(ascii ''Number'', ascii ''Sing'')] [[1084, 1085]]
       = Inr [(ascii ''Number'', ascii ''Sing'')]
   \<and> map_of [(ascii ''Number'', ascii ''Sing'')] (ascii ''Number'') = Some (ascii ''Sing'')"
proof -
  let ?obs = "[1086, 1073, 1097] :: ustring"
  let ?ns = "[(ascii ''Number'', ascii ''Sing'')]"
  let ?nsgc = "[(ascii ''Number'', ascii ''Sing''), (ascii ''Gender'', ascii ''Com'')]"
  let ?np = "[(ascii ''Number'', ascii ''Ptan'')]"
  have a1: "assign_tag sample_mystem ?ns ?obs
                [cat_case sample_mystem, cat_number sample_mystem, cat_gender sample_mystem,
                 cat_animacy sample_mystem, cat_tense sample_mystem] = Inr ?nsgc"
    by (simp add: sample_defs)
  have b1: "priority sample_mystem
       = [ascii ''Case''] @ ascii ''Number'' # [ascii ''Gender'', ascii ''Animacy'', ascii ''Tense'']"
    by (simp add: priority_def sample_mystem_def)
  have b2: "open_for sample_mystem [] ?obs (ascii ''Number'')"
    by (simp add: open_for_def is_registered_def sample_defs)
  have b3: "ascii ''Gender'' \<notin> set ([ascii ''Case''] @ [ascii ''Number''])"
    by (simp add: ascii_def)
  have b4: "map_of ([] :: (ustring \<times> ustring) list) (ascii ''Gender'') = None"
    by simp
  have b5: "assign_tag sample_mystem [] ?obs (priority sample_mystem) = Inr ?np"
    by (simp add: priority_def sample_defs)
  have c1: "mystem_ud_tags sample_mystem ambiguous_tags = Inr ?nsgc"
    by (simp add: mystem_ud_tags_def findall_def is_cyrillic_small_def priority_def
          ambiguous_tags_def sample_defs)
  have d1: "collect_ud_tags sample_mystem ?ns [[1084, 1085]] = Inr ?ns"
    by (simp add: priority_def sample_defs)
  have d2: "map_of ?ns (ascii ''Number'') = Some (ascii ''Sing'')"
    by simp
  note t = mystem_category_priority [of sample_mystem ?ns ?obs ?nsgc
      "[ascii ''Case'']" "ascii ''Number''" "[ascii ''Gender'', ascii ''Animacy'', ascii ''Tense'']"
      "[]" ?obs "ascii ''Gender''" ?np ambiguous_tags ?nsgc ?ns "[[1084, 1085]]" ?ns
      "ascii ''Number''" "ascii ''Sing''"]
  note t1 = mp [OF conjunct1 [OF t] a1]
  note t2 = mp [OF conjunct1 [OF conjunct2 [OF t]]
      conjI [OF b1 conjI [OF b2 conjI [OF b3 conjI [OF b4 b5]]]]]
  note t3 = mp [OF conjunct1 [OF conjunct2 [OF conjunct2 [OF t]]] c1]
  note t4 = mp [OF conjunct2 [OF conjunct2 [OF conjunct2 [OF t]]] conjI [OF d1 d2]]
  show ?thesis
    using a1 t1 b1 b2 b5 t2 c1 t3 d1 t4 by (intro conjI)
qed

text \<open>
  C4 as stated fails when the earlier category already holds a value: the marker
  registered under both \<open>Number\<close> and \<open>Gender\<close> comes after a number marker, and is
  stored under \<open>Gender\<close>, the later of its two categories.
\<close>

theorem ambiguous_marker_counterexample:
  "is_registered sample_mystem (cat_number sample_mystem) [1086, 1073, 1097]
   \<and> is_registered sample_mystem (cat_gender sample_mystem) [1086, 1073, 1097]
   \<and> findall is_cyrillic_small ambiguous_tags = [[1077, 1076], [1086, 1073, 1097]]
   \<and> mystem_ud_tags sample_mystem ambiguous_tags
       = Inr [(ascii ''Number'', ascii ''Sing''), (ascii ''Gender'', ascii ''Com'')]
   \<and> mystem_convert_morphological_tags sample_mystem ambiguous_tags
       = Inr (ascii ''Gender=Com|Number=Sing'')"
  by (simp add: is_registered_def mystem_convert_morphological_tags_def mystem_ud_tags_def
        findall_def is_cyrillic_small_def priority_def format_tags_def ambiguous_tags_def
        sample_defs)

subsection \<open>The rendered part of speech\<close>

lemma classify_pos:
  assumes "classify U tc x = Inr parameters" and "pos_values_nonempty tc"
  shows "\<exists>p. dto_pos parameters = Some p \<and> p \<noteq> []"
proof (cases "\<exists>a rest. entry_analysis x = Some (a # rest)")
  case True
  then obtain a rest where a: "entry_analysis x = Some (a # rest)" by blast
  with assms(1) obtain pos where p: "mystem_convert_pos U tc (gr a) = Inr pos"
      "dto_pos parameters = Some pos"
    by (auto simp: classify_def split: sum.splits)
  from p(1) obtain table w where "tag_mapping tc (cat_pos tc) = Some table" "table w = Some pos"
    by (auto simp: mystem_convert_pos_def getitem_def split: option.splits)
  with assms(2) have "pos \<noteq> []"
    unfolding pos_values_nonempty_def by blast
  with p(2) show ?thesis by simp
next
  case False
  with assms(1) have "dto_pos parameters = Some (ascii ''NUM'') \<or> dto_pos parameters = Some (ascii ''X'')"
    by (auto simp: classify_def split: option.splits list.splits if_splits)
  then show ?thesis by (auto simp: ascii_def)
qed

lemma oc_convert_pos_nonempty:
  assumes "oc_convert_pos btc tags = Inr pos" and "pos_values_nonempty btc"
  shows "pos \<noteq> Some []"
proof
  assume e: "pos = Some []"
  with assms(1) obtain table w where "tag_mapping btc (cat_pos btc) = Some table"
      "table w = Some []"
    by (auto simp: oc_convert_pos_def getitem_def split: option.splits)
  with assms(2) show False
    unfolding pos_values_nonempty_def by blast
qed

lemma classify_advanced_pos:
  assumes "classify_advanced U tc btc parse x = Inr parameters"
    and "pos_values_nonempty tc" and "pos_values_nonempty btc"
  shows "dto_pos parameters \<noteq> Some []"
proof (cases "\<exists>a rest. entry_analysis x = Some (a # rest)")
  case True
  then obtain a rest where a: "entry_analysis x = Some (a # rest)" by blast
  with assms(1) obtain pos where p: "mystem_convert_pos U tc (gr a) = Inr pos"
    by (auto simp: classify_advanced_def split: sum.splits)
  show ?thesis
  proof (cases "pos = ascii ''NOUN''")
    case True
    with assms(1) a p have "\<exists>q :: oc_parse. oc_convert_pos btc (parse_tag q) = Inr (dto_pos parameters)"
      by (auto simp: classify_advanced_def split: sum.splits list.splits)
    with oc_convert_pos_nonempty [OF _ assms(3)] show ?thesis by blast
  next
    case False
    with assms(1) a p have "classify U tc x = Inr parameters"
      by (auto simp: classify_advanced_def classify_def split: sum.splits)
    from classify_pos [OF this assms(2)] show ?thesis by auto
  qed
next
  case False
  with assms(1) have "dto_pos parameters = Some (ascii ''NUM'') \<or> dto_pos parameters = Some (ascii ''X'')"
    by (auto simp: classify_advanced_def split: option.splits list.splits if_splits)
  then show ?thesis by (auto simp: ascii_def)
qed

text \<open>
  C5. Every token of every sentence returned by either pipeline renders, for both values
  of the flag, as the ten fields position, text, lemma, part of speech, \<open>_\<close>, features
  or \<open>_\<close>, \<open>0\<close>, \<open>root\<close>, \<open>_\<close>, \<open>_\<close> joined by tabs, where the part-of-speech field is
  \<open>X\<close> when the token's part of speech is \<open>None\<close> and is never empty. The values of
  the part-of-speech tables are taken to be non-empty strings, as tags of the UD
  vocabulary are.
\<close>

theorem rendered_pos_never_empty:
  assumes "process U tc analyze split_by_sentence txt = Inr sents
           \<or> process_advanced U tc btc parse analyze split_by_sentence txt = Inr sents"
    and "pos_values_nonempty tc" and "pos_values_nonempty btc"
    and "s \<in> set sents" and "t \<in> set (sent_tokens s)"
  shows "\<exists>pos feats.
           get_conllu_text include_morphological_tags t
             = join [9] [str_position (tok_position t), tok_text t,
                         dto_lemma (morphological_parameters t), pos, ascii ''_'', feats,
                         ascii ''0'', ascii ''root'', ascii ''_'', ascii ''_'']
           \<and> pos \<noteq> []
           \<and> (dto_pos (morphological_parameters t) = None \<longrightarrow> pos = ascii ''X'')
           \<and> (\<forall>p. dto_pos (morphological_parameters t) = Some p \<longrightarrow> pos = p)
           \<and> feats = (if include_morphological_tags \<and> dto_tags (morphological_parameters t) \<noteq> []
                      then dto_tags (morphological_parameters t) else ascii ''_'')"
proof -
  let ?result = "analyze (sub (is_nonword U) (ascii '' '') txt)"
  have nonempty: "dto_pos (morphological_parameters t) \<noteq> Some []"
  proof -
    from assms(1) consider
      (basic) "process_sentences U (classify U tc) ?result 0 0 (split_by_sentence txt) = Inr sents"
    | (advanced) "process_sentences U (classify_advanced U tc btc parse) ?result 0 0
                    (split_by_sentence txt) = Inr sents"
      unfolding process_def process_advanced_def process_with_def by blast
    then show ?thesis
    proof cases
      case basic
      from process_sentences_params [OF basic] assms(4,5)
      have "(\<exists>n. t = punct_token n)
          \<or> (\<exists>x \<in> set ?result. classify U tc x = Inr (morphological_parameters t))"
        by blast
      then show ?thesis
      proof
        assume "\<exists>n. t = punct_token n"
        then show ?thesis by (auto simp: punct_token_def ascii_def)
      next
        assume "\<exists>x \<in> set ?result. classify U tc x = Inr (morphological_parameters t)"
        then obtain x where "classify U tc x = Inr (morphological_parameters t)" by blast
        from classify_pos [OF this assms(2)] show ?thesis by auto
      qed
    next
      case advanced
      from process_sentences_params [OF advanced] assms(4,5)
      have "(\<exists>n. t = punct_token n)
          \<or> (\<exists>x \<in> set ?result.
                classify_advanced U tc btc parse x = Inr (morphological_parameters t))"
        by blast
      then show ?thesis
      proof
        assume "\<exists>n. t = punct_token n"
        then show ?thesis by (auto simp: punct_token_def ascii_def)
      next
        assume "\<exists>x \<in> set ?result.
                classify_advanced U tc btc parse x = Inr (morphological_parameters t)"
        then obtain x where
          "classify_advanced U tc btc parse x = Inr (morphological_parameters t)" by blast
        from classify_advanced_pos [OF this assms(2,3)] show ?thesis .
      qed
    qed
  qed
  let ?pos = "case dto_pos (morphological_parameters t) of None \<Rightarrow> ascii ''X'' | Some p \<Rightarrow> p"
  let ?feats = "if include_morphological_tags \<and> dto_tags (morphological_parameters t) \<noteq> []
                then dto_tags (morphological_parameters t) else ascii ''_''"
  have h1: "get_conllu_text include_morphological_tags t
             = join [9] [str_position (tok_position t), tok_text t,
                         dto_lemma (morphological_parameters t), ?pos, ascii ''_'', ?feats,
                         ascii ''0'', ascii ''root'', ascii ''_'', ascii ''_'']"
    by (simp add: get_conllu_text_def conllu_fields_def)
  from nonempty have h2: "?pos \<noteq> []"
    by (auto simp: ascii_def split: option.splits)
  have h3: "dto_pos (morphological_parameters t) = None \<longrightarrow> ?pos = ascii ''X''"
    by simp
  have h4: "\<forall>p. dto_pos (morphological_parameters t) = Some p \<longrightarrow> ?pos = p"
    by simp
  show ?thesis
    apply (rule exI [of _ ?pos])
    apply (rule exI [of _ ?feats])
    using h1 h2 h3 h4 apply (intro conjI)
        apply assumption+
    apply (rule refl)
    done
qed

theorem rendered_pos_never_empty_witness:
  "process_advanced basic_unicode sample_mystem sample_opencorpora bare_parse sample_analyze
       one_sentence sample_text = Inr [bare_sentence]
   \<and> pos_values_nonempty sample_mystem \<and> pos_values_nonempty sample_opencorpora
   \<and> bare_sentence \<in> set [bare_sentence] \<and> bare_kot_token \<in> set (sent_tokens bare_sentence)
   \<and> dto_pos (morphological_parameters bare_kot_token) = None
   \<and> get_conllu_text True bare_kot_token
       = ascii ''1'' @ [9, 1050, 1086, 1090, 9, 1050, 1086, 1090, 9] @ ascii ''X'' @ [9]
         @ ascii ''_'' @ [9] @ ascii ''_'' @ [9] @ ascii ''0'' @ [9] @ ascii ''root'' @ [9]
         @ ascii ''_'' @ [9] @ ascii ''_''
   \<and> (\<exists>pos feats.
         get_conllu_text True bare_kot_token
           = join [9] [str_position (tok_position bare_kot_token), tok_text bare_kot_token,
                       dto_lemma (morphological_parameters bare_kot_token), pos, ascii ''_'',
                       feats, ascii ''0'', ascii ''root'', ascii ''_'', ascii ''_'']
         \<and> pos \<noteq> []
         \<and> (dto_pos (morphological_parameters bare_kot_token) = None \<longrightarrow> pos = ascii ''X'')
         \<and> (\<forall>p. dto_pos (morphological_parameters bare_kot_token) = Some p \<longrightarrow> pos = p)
         \<and> feats = (if True \<and> dto_tags (morphological_parameters bare_kot_token) \<noteq> []
                    then dto_tags (morphological_parameters bare_kot_token) else ascii ''_''))"
proof -
  have run: "process_advanced basic_unicode sample_mystem sample_opencorpora bare_parse
               sample_analyze one_sentence sample_text = Inr [bare_sentence]"
    by (simp add: bare_tag_def bare_parse_def bare_kot_token_def bare_sentence_def eval_defs
          sample_defs)
  have n1: "pos_values_nonempty sample_mystem"
    by (auto simp: pos_values_nonempty_def sample_mystem_def ascii_def split: if_splits)
  have n2: "pos_values_nonempty sample_opencorpora"
    by (auto simp: pos_values_nonempty_def sample_opencorpora_def ascii_def split: if_splits)
  have m1: "bare_sentence \<in> set [bare_sentence]"
    by simp
  have m2: "bare_kot_token \<in> set (sent_tokens bare_sentence)"
    by (simp add: bare_sentence_def)
  have p: "dto_pos (morphological_parameters bare_kot_token) = None"
    by (simp add: bare_kot_token_def)
  have r: "get_conllu_text True bare_kot_token
       = ascii ''1'' @ [9, 1050, 1086, 1090, 9, 1050, 1086, 1090, 9] @ ascii ''X'' @ [9]
         @ ascii ''_'' @ [9] @ ascii ''_'' @ [9] @ ascii ''0'' @ [9] @ ascii ''root'' @ [9]
         @ ascii ''_'' @ [9] @ ascii ''_''"
    by (simp add: get_conllu_text_def conllu_fields_def str_position_def bare_kot_token_def
          ascii_def)
  from run n1 n2 m1 m2 p r
    rendered_pos_never_empty [OF disjI2 [OF run] n1 n2 m1 m2, of True]
  show ?thesis by (intro conjI)
qed

text \<open>
  Outside the pipelines: a token whose parameters were never set keeps the default
  part of speech of \<open>MorphologicalTokenDTO\<close>, the empty string and not \<open>None\<close>, and
  renders it as it is.
\<close>

lemma default_parameters_render_empty:
  "conllu_fields include_morphological_tags
     \<lparr>tok_text = w, morphological_parameters = default_dto, tok_position = p\<rparr> ! 3 = []"
  by (simp add: conllu_fields_def default_dto_def)

subsection \<open>Unmapped part-of-speech tags\<close>

text \<open>
  C6. When the leading tag token (the \<open>\w+\<close> match at the start of a Mystem tag string,
  the \<open>POS\<close> field of an OpenCorpora tag) has no entry in the part-of-speech category
  of the mapping, \<open>convert_pos\<close> of either converter fails with the \<open>KeyError\<close> of the
  dictionary subscript (the source has no exception class of its own for it), and
  both pipelines fail with it when they classify such an entry: no token with a
  fallback part of speech is produced.
\<close>

theorem convert_pos_unmapped_fails:
  "(match (is_word U) tags = Some p \<and> \<not> pos_mapped tc p
      \<longrightarrow> mystem_convert_pos U tc tags = Inl KeyError)
   \<and> (oc_POS otags = Some p \<and> \<not> pos_mapped btc p
      \<longrightarrow> oc_convert_pos btc otags = Inl KeyError)
   \<and> (entry_analysis ac = Some (a # rest) \<and> match (is_word U) (gr a) = Some p
        \<and> \<not> pos_mapped tc p
      \<longrightarrow> classify U tc ac = Inl KeyError
          \<and> classify_advanced U tc btc parse ac = Inl KeyError)"
  by (auto simp: pos_mapped_def mystem_convert_pos_def oc_convert_pos_def getitem_def
        classify_def classify_advanced_def split: option.splits)

theorem convert_pos_unmapped_fails_witness:
  "mystem_convert_pos basic_unicode sample_mystem (ascii ''ADV='') = Inl KeyError
   \<and> oc_convert_pos sample_opencorpora (sample_noun_tag\<lparr>oc_POS := Some (ascii ''ADV'')\<rparr>)
       = Inl KeyError
   \<and> classify basic_unicode sample_mystem
        \<lparr>entry_text = ascii ''tam'',
         entry_analysis = Some [\<lparr>lex = ascii ''tam'', gr = ascii ''ADV=''\<rparr>]\<rparr>
       = Inl KeyError
   \<and> classify_advanced basic_unicode sample_mystem sample_opencorpora sample_parse
        \<lparr>entry_text = ascii ''tam'',
         entry_analysis = Some [\<lparr>lex = ascii ''tam'', gr = ascii ''ADV=''\<rparr>]\<rparr>
       = Inl KeyError"
proof -
  have h1: "match (is_word basic_unicode) (ascii ''ADV='') = Some (ascii ''ADV'')"
    by (simp add: match_def is_word_def basic_unicode_def ascii_def)
  have h2: "\<not> pos_mapped sample_mystem (ascii ''ADV'')"
    by (simp add: pos_mapped_def sample_mystem_def ascii_def)
  have h3: "\<not> pos_mapped sample_opencorpora (ascii ''ADV'')"
    by (simp add: pos_mapped_def sample_opencorpora_def ascii_def)
  show ?thesis
    using h1 h2 h3
      convert_pos_unmapped_fails [of basic_unicode "ascii ''ADV=''" "ascii ''ADV''" sample_mystem
        "sample_noun_tag\<lparr>oc_POS := Some (ascii ''ADV'')\<rparr>" sample_opencorpora
        "\<lparr>entry_text = ascii ''tam'',
          entry_analysis = Some [\<lparr>lex = ascii ''tam'', gr = ascii ''ADV=''\<rparr>]\<rparr>"
        "\<lparr>lex = ascii ''tam'', gr = ascii ''ADV=''\<rparr>" "[]" sample_parse]
    by simp
qed

text \<open>
  The tags without a leading token are not of this kind: a Mystem tag string that does
  not start with a word character raises \<open>TypeError\<close> (the subscript of the failed
  match), and for an OpenCorpora tag without part of speech the converter returns
  \<open>None\<close>, which is rendered as \<open>X\<close>.
\<close>

lemma convert_pos_without_token:
  "(match (is_word U) tags = None \<longrightarrow> mystem_convert_pos U tc tags = Inl TypeError)
   \<and> (oc_POS otags = None \<longrightarrow> oc_convert_pos btc otags = Inr None)"
  by (simp add: mystem_convert_pos_def oc_convert_pos_def)

subsection \<open>Token positions and the final token\<close>

text \<open>
  C7. Whenever either pipeline returns, it returns one sentence per input sentence,
  numbered from 0; the token positions of each sentence are exactly \<open>1\<close> to
  \<open>word_count + 1\<close> in increasing order, and the last token is the synthetic one: text
  and lemma a full stop, part of speech \<open>PUNCT\<close>, no features, position
  \<open>word_count + 1\<close>.
\<close>

theorem sentence_token_positions:
  assumes "process U tc analyze split_by_sentence txt = Inr sents
           \<or> process_advanced U tc btc parse analyze split_by_sentence txt = Inr sents"
  shows "length sents = length (split_by_sentence txt)
     \<and> (\<forall>k < length sents.
          map tok_position (sent_tokens (sents ! k))
            = map Some [1..<length (findall (is_word U) (split_by_sentence txt ! k)) + 2]
          \<and> last (sent_tokens (sents ! k))
            = \<lparr>tok_text = ascii ''.'',
               morphological_parameters =
                 \<lparr>dto_lemma = ascii ''.'', dto_pos = Some (ascii ''PUNCT''), dto_tags = []\<rparr>,
               tok_position = Some (length (findall (is_word U) (split_by_sentence txt ! k)) + 1)\<rparr>
          \<and> sent_position (sents ! k) = k
          \<and> sent_text (sents ! k) = split_by_sentence txt ! k)"
proof -
  let ?result = "analyze (sub (is_nonword U) (ascii '' '') txt)"
  from assms obtain cl where
    run: "process_sentences U cl ?result 0 0 (split_by_sentence txt) = Inr sents"
    unfolding process_def process_advanced_def process_with_def by blast
  from process_sentences_shape [OF run]
  have shape: "list_all2 (sentence_shape U) (split_by_sentence txt) sents"
    and pos: "map sent_position sents = [0..<length (split_by_sentence txt)]"
    by simp_all
  from shape have len: "length sents = length (split_by_sentence txt)"
    by (simp add: list_all2_lengthD)
  have "map tok_position (sent_tokens (sents ! k))
            = map Some [1..<length (findall (is_word U) (split_by_sentence txt ! k)) + 2]
          \<and> last (sent_tokens (sents ! k))
            = \<lparr>tok_text = ascii ''.'',
               morphological_parameters =
                 \<lparr>dto_lemma = ascii ''.'', dto_pos = Some (ascii ''PUNCT''), dto_tags = []\<rparr>,
               tok_position = Some (length (findall (is_word U) (split_by_sentence txt ! k)) + 1)\<rparr>
          \<and> sent_position (sents ! k) = k
          \<and> sent_text (sents ! k) = split_by_sentence txt ! k"
    if k: "k < length sents" for k
  proof -
    from shape k len have "sentence_shape U (split_by_sentence txt ! k) (sents ! k)"
      by (simp add: list_all2_nthD2)
    moreover from pos k len have "sent_position (sents ! k) = k"
      by (metis add_0 length_map nth_map nth_upt)
    ultimately show ?thesis
      by (simp add: sentence_shape_def punct_token_def)
  qed
  with len show ?thesis by blast
qed

theorem sentence_token_positions_witness:
  "process basic_unicode sample_mystem sample_analyze one_sentence sample_text
     = Inr sample_output
   \<and> process_advanced basic_unicode sample_mystem sample_opencorpora sample_parse
       sample_analyze one_sentence sample_text = Inr sample_output
   \<and> length sample_output = length (one_sentence sample_text)
   \<and> findall (is_word basic_unicode) (one_sentence sample_text ! 0)
       = [[1050, 1086, 1090], [1089, 1080, 1076, 1080, 1090]]
   \<and> map tok_position (sent_tokens (sample_output ! 0))
       = map Some [1..<length (findall (is_word basic_unicode) (one_sentence sample_text ! 0)) + 2]
   \<and> last (sent_tokens (sample_output ! 0))
       = \<lparr>tok_text = ascii ''.'',
          morphological_parameters =
            \<lparr>dto_lemma = ascii ''.'', dto_pos = Some (ascii ''PUNCT''), dto_tags = []\<rparr>,
          tok_position =
            Some (length (findall (is_word basic_unicode) (one_sentence sample_text ! 0)) + 1)\<rparr>
   \<and> sent_position (sample_output ! 0) = 0
   \<and> sent_text (sample_output ! 0) = one_sentence sample_text ! 0"
proof -
  have run: "process basic_unicode sample_mystem sample_analyze one_sentence sample_text
               = Inr sample_output"
    by (simp add: eval_defs sample_defs)
  have run': "process_advanced basic_unicode sample_mystem sample_opencorpora sample_parse
                sample_analyze one_sentence sample_text = Inr sample_output"
    by (simp add: eval_defs sample_defs)
  have words: "findall (is_word basic_unicode) (one_sentence sample_text ! 0)
                 = [[1050, 1086, 1090], [1089, 1080, 1076, 1080, 1090]]"
    by (simp add: eval_defs sample_defs)
  have k: "0 < length sample_output"
    by (simp add: sample_output_def)
  note t = sentence_token_positions [OF disjI1 [OF run]]
  note t' = sentence_token_positions [OF disjI2 [OF run']]
  note a = mp [OF spec [OF conjunct2 [OF t]] k]
  note a' = mp [OF spec [OF conjunct2 [OF t']] k]
  from run run' conjunct1 [OF t] words conjunct1 [OF a] conjunct1 [OF conjunct2 [OF a]]
    conjunct1 [OF conjunct2 [OF conjunct2 [OF a']]]
    conjunct2 [OF conjunct2 [OF conjunct2 [OF a']]]
  show ?thesis by (intro conjI)
qed

subsection \<open>Order of the feature string\<close>

lemma sorted_pairs_keys:
  "sorted (items :: (ustring \<times> ustring) list) \<Longrightarrow> sorted (map fst items)"
  by (induction items) (auto simp: less_eq_prod_def)

lemma sort_keys_strict:
  assumes "distinct (map fst (ud :: (ustring \<times> ustring) list))"
  shows "sorted_wrt (<) (map fst (sort ud))"
proof -
  have "inj_on fst (set ud)" and "distinct ud"
    using assms by (auto simp: distinct_map)
  then have "distinct (map fst (sort ud))"
    by (simp add: distinct_map)
  moreover have "sorted (map fst (sort ud))"
    by (rule sorted_pairs_keys) simp
  ultimately show ?thesis
    by (simp add: strict_sorted_iff)
qed

lemma update_fresh:
  "k \<notin> fst ` set al \<Longrightarrow> AList.update k v al = al @ [(k, v)]"
  by (induction al) auto

lemma oc_collect_sorted:
  "oc_collect tc ud lst = Inr items \<Longrightarrow> sorted_wrt (<) (map fst ud @ map fst lst)
    \<Longrightarrow> sorted_wrt (<) (map fst items)"
proof (induction lst arbitrary: ud)
  case Nil
  then show ?case by simp
next
  case (Cons kv lst)
  obtain k v where kv: "kv = (k, v)" by (cases kv)
  show ?case
  proof (cases v)
    case None
    with Cons.prems kv have "oc_collect tc ud lst = Inr items" by simp
    moreover from Cons.prems(2) have "sorted_wrt (<) (map fst ud @ map fst lst)"
      by (auto simp: sorted_wrt_append)
    ultimately show ?thesis by (rule Cons.IH)
  next
    case (Some m)
    with Cons.prems kv obtain x where
      run: "oc_collect tc (AList.update k x ud) lst = Inr items"
      by (auto simp: getitem_def split: option.splits)
    from Cons.prems(2) kv have fresh: "k \<notin> fst ` set ud"
      by (auto simp: sorted_wrt_append)
    have "map fst (AList.update k x ud) @ map fst lst = map fst ud @ map fst (kv # lst)"
      using fresh kv by (simp add: update_fresh)
    with Cons.prems(2) have "sorted_wrt (<) (map fst (AList.update k x ud) @ map fst lst)"
      by simp
    with run show ?thesis by (rule Cons.IH)
  qed
qed

text \<open>
  C8. The feature string of the Mystem converter is the \<open>key=value\<close> pairs of the
  collected dictionary joined by \<open>|\<close>, in strictly increasing order of the keys. The
  OpenCorpora converter does not sort: it lists the pairs in the order animacy, case,
  gender, number in which it stores them, which is strictly increasing order of the
  keys whenever the category names are so ordered (as \<open>Animacy\<close>, \<open>Case\<close>, \<open>Gender\<close>,
  \<open>Number\<close> are).
\<close>

theorem feature_string_alphabetical:
  "(mystem_convert_morphological_tags tc tags = Inr s
      \<longrightarrow> (\<exists>ud_tags items. mystem_ud_tags tc tags = Inr ud_tags \<and> set items = set ud_tags
            \<and> length items = length ud_tags \<and> sorted_wrt (<) (map fst items)
            \<and> s = format_tags items))
   \<and> (oc_keys_ordered btc \<and> oc_convert_morphological_tags btc otags = Inr s'
      \<longrightarrow> (\<exists>items. oc_ud_tags btc otags = Inr items \<and> sorted_wrt (<) (map fst items)
            \<and> s' = format_tags items))"
proof (intro conjI impI)
  assume a: "mystem_convert_morphological_tags tc tags = Inr s"
  then obtain ud where ud: "mystem_ud_tags tc tags = Inr ud" and s: "s = format_tags (sort ud)"
    by (auto simp: mystem_convert_morphological_tags_def split: sum.splits)
  from ud have "distinct (map fst ud)"
    unfolding mystem_ud_tags_def by (rule collect_ud_tags_distinct) simp
  then have "sorted_wrt (<) (map fst (sort ud))"
    by (rule sort_keys_strict)
  with ud s show "\<exists>ud_tags items. mystem_ud_tags tc tags = Inr ud_tags \<and> set items = set ud_tags
            \<and> length items = length ud_tags \<and> sorted_wrt (<) (map fst items)
            \<and> s = format_tags items"
    by (intro exI [of _ ud] exI [of _ "sort ud"]) simp
next
  assume b: "oc_keys_ordered btc \<and> oc_convert_morphological_tags btc otags = Inr s'"
  then obtain items where it: "oc_ud_tags btc otags = Inr items" and s: "s' = format_tags items"
    by (auto simp: oc_convert_morphological_tags_def split: sum.splits)
  let ?lst = "[(cat_animacy btc, oc_animacy otags), (cat_case btc, oc_case otags),
               (cat_gender btc, oc_gender otags), (cat_number btc, oc_number otags)]"
  from b have srt: "sorted_wrt (<) (map fst ([] :: (ustring \<times> ustring) list) @ map fst ?lst)"
    by (auto simp: oc_keys_ordered_def)
  from it have run: "oc_collect btc [] ?lst = Inr items"
    by (simp only: oc_ud_tags_def)
  from run srt have "sorted_wrt (<) (map fst items)"
    by (rule oc_collect_sorted)
  with it s show "\<exists>items. oc_ud_tags btc otags = Inr items \<and> sorted_wrt (<) (map fst items)
            \<and> s' = format_tags items"
    by simp
qed

theorem feature_string_alphabetical_witness:
  "mystem_convert_morphological_tags sample_mystem (gr kot_analysis)
     = Inr (ascii ''Animacy=Anim|Case=Nom|Gender=Masc|Number=Sing'')
   \<and> (\<exists>ud_tags items. mystem_ud_tags sample_mystem (gr kot_analysis) = Inr ud_tags
         \<and> set items = set ud_tags \<and> length items = length ud_tags
         \<and> sorted_wrt (<) (map fst items)
         \<and> ascii ''Animacy=Anim|Case=Nom|Gender=Masc|Number=Sing'' = format_tags items)
   \<and> oc_keys_ordered sample_opencorpora
   \<and> oc_convert_morphological_tags sample_opencorpora sample_noun_tag
     = Inr (ascii ''Animacy=Anim|Case=Nom|Gender=Masc|Number=Sing'')
   \<and> (\<exists>items. oc_ud_tags sample_opencorpora sample_noun_tag = Inr items
         \<and> sorted_wrt (<) (map fst items)
         \<and> ascii ''Animacy=Anim|Case=Nom|Gender=Masc|Number=Sing'' = format_tags items)"
proof -
  have m: "mystem_convert_morphological_tags sample_mystem (gr kot_analysis)
             = Inr (ascii ''Animacy=Anim|Case=Nom|Gender=Masc|Number=Sing'')"
    by (simp add: mystem_convert_morphological_tags_def mystem_ud_tags_def findall_def
          is_cyrillic_small_def priority_def format_tags_def sample_defs)
  have k: "oc_keys_ordered sample_opencorpora"
    by (simp add: oc_keys_ordered_def sample_opencorpora_def ascii_def)
  have c: "oc_convert_morphological_tags sample_opencorpora sample_noun_tag
             = Inr (ascii ''Animacy=Anim|Case=Nom|Gender=Masc|Number=Sing'')"
    by (simp add: oc_convert_morphological_tags_def oc_ud_tags_def getitem_def format_tags_def
          sample_defs)
  note t = feature_string_alphabetical [of sample_mystem "gr kot_analysis"
      "ascii ''Animacy=Anim|Case=Nom|Gender=Masc|Number=Sing''" sample_opencorpora
      sample_noun_tag "ascii ''Animacy=Anim|Case=Nom|Gender=Masc|Number=Sing''"]
  show ?thesis
    using m k c mp [OF conjunct1 [OF t] m] mp [OF conjunct2 [OF t] conjI [OF k c]]
    by (intro conjI)
qed

subsection \<open>Cleaning twice\<close>

lemma sub_run_delete: "sub_run P [] inrun s = filter (\<lambda>c. \<not> P c) s"
  by (induction s arbitrary: inrun) auto

lemma sub_delete: "sub P [] s = filter (\<lambda>c. \<not> P c) s"
  by (simp add: sub_def sub_run_delete)

lemma get_cleaned_stable:
  assumes "stable_cleaned U t"
  shows "get_cleaned U (cleaned_token U t) = get_cleaned U t"
proof -
  define c where "c = get_cleaned U t"
  from assms have w: "\<forall>x \<in> set c. is_word U x" and l: "lower U c = c"
    by (simp_all add: stable_cleaned_def list_all_iff c_def)
  from w have "sub (is_nonword U) [] c = c"
    by (simp add: sub_delete is_nonword_def)
  moreover have "get_cleaned U (cleaned_token U t) = lower U (sub (is_nonword U) [] c)"
    by (simp add: get_cleaned_def cleaned_token_def c_def)
  ultimately show ?thesis
    using l by (simp add: c_def)
qed

text \<open>
  C9 (as amended). Cleaning a token again gives the same string whenever its cleaned
  text consists of word characters and is left unchanged by lowercasing; cleaning a
  sentence again (that is, the sentence of its cleaned tokens) gives the same string
  whenever this holds for all its tokens.
\<close>

theorem cleaned_idempotent:
  "(stable_cleaned U t \<longrightarrow> get_cleaned U (cleaned_token U t) = get_cleaned U t)
   \<and> (list_all (stable_cleaned U) (sent_tokens s)
      \<longrightarrow> get_cleaned_sentence U (cleaned_tokens U s) = get_cleaned_sentence U s)"
proof (intro conjI impI)
  assume "stable_cleaned U t"
  then show "get_cleaned U (cleaned_token U t) = get_cleaned U t"
    by (rule get_cleaned_stable)
next
  assume "list_all (stable_cleaned U) (sent_tokens s)"
  then have eq: "map (get_cleaned U) (sent_tokens (cleaned_tokens U s))
               = map (get_cleaned U) (sent_tokens s)"
    by (simp add: cleaned_tokens_def list_all_iff get_cleaned_stable)
  show "get_cleaned_sentence U (cleaned_tokens U s) = get_cleaned_sentence U s"
    by (simp only: get_cleaned_sentence_def eq)
qed

theorem cleaned_idempotent_witness:
  "stable_cleaned basic_unicode comma_token
   \<and> get_cleaned basic_unicode comma_token = [1082, 1086, 1090]
   \<and> get_cleaned basic_unicode (cleaned_token basic_unicode comma_token) = [1082, 1086, 1090]
   \<and> list_all (stable_cleaned basic_unicode) (sent_tokens (hd sample_output))
   \<and> get_cleaned_sentence basic_unicode (hd sample_output)
       = [1082, 1086, 1090, 32, 1089, 1080, 1076, 1080, 1090]
   \<and> get_cleaned_sentence basic_unicode (cleaned_tokens basic_unicode (hd sample_output))
       = [1082, 1086, 1090, 32, 1089, 1080, 1076, 1080, 1090]"
proof -
  have c: "get_cleaned basic_unicode comma_token = [1082, 1086, 1090]"
    by (simp add: get_cleaned_def comma_token_def eval_defs sample_defs)
  have st: "stable_cleaned basic_unicode comma_token"
    unfolding stable_cleaned_def c by (simp add: eval_defs sample_defs)
  have sts: "list_all (stable_cleaned basic_unicode) (sent_tokens (hd sample_output))"
    by (simp add: stable_cleaned_def get_cleaned_def eval_defs sample_defs)
  have cs: "get_cleaned_sentence basic_unicode (hd sample_output)
              = [1082, 1086, 1090, 32, 1089, 1080, 1076, 1080, 1090]"
    by (simp add: get_cleaned_sentence_def get_cleaned_def strip_def eval_defs sample_defs)
  note t = cleaned_idempotent [of basic_unicode comma_token "hd sample_output"]
  note t1 = mp [OF conjunct1 [OF t] st]
  note t2 = mp [OF conjunct2 [OF t] sts]
  from st c t1 [unfolded c] sts cs t2 [unfolded cs]
  show ?thesis by (intro conjI)
qed

text \<open>
  C9 as stated fails for the token \<open>U+0130\<close>: it is a word character, its lowercase is
  \<open>U+0069 U+0307\<close>, and \<open>U+0307\<close> is not a word character, so the second cleaning
  deletes it. The same holds for the sentence of this token.
\<close>

theorem dotted_capital_counterexample:
  "get_cleaned basic_unicode dotted_token = [105, 775]
   \<and> get_cleaned basic_unicode (cleaned_token basic_unicode dotted_token) = [105]
   \<and> get_cleaned_sentence basic_unicode dotted_sentence = [105, 775]
   \<and> get_cleaned_sentence basic_unicode (cleaned_tokens basic_unicode dotted_sentence) = [105]"
  by (simp add: get_cleaned_def get_cleaned_sentence_def cleaned_token_def cleaned_tokens_def
        dotted_token_def dotted_sentence_def strip_def eval_defs sample_defs)

subsection \<open>Duplicate identifiers\<close>

lemma literal_body_all:
  "literal_body U body \<Longrightarrow> \<forall>c \<in> set body. is_decimal U c \<or> c = 95"
  by (induction U body rule: literal_body.induct) (auto split: if_splits)

lemma py_int_leading:
  assumes plain: "digits_plain U" and ne: "s \<noteq> []" and hd: "is_decimal U (hd s)"
    and no_us: "95 \<notin> set s" and v: "py_int U s = Inr v"
  shows "v = int_digits U (takeWhile (is_decimal U) s)"
proof -
  define t where "t = rev (dropWhile (isspace_cp U) (rev s))"
  define ws where "ws = rev (takeWhile (isspace_cp U) (rev s))"
  have not_space: "\<not> isspace_cp U c" if "is_decimal U c" for c
    using plain that by (simp add: digits_plain_def)
  from ne hd have "dropWhile (isspace_cp U) s = s"
    by (cases s) (simp_all add: not_space)
  then have strip: "strip U s = t"
    by (simp add: strip_def t_def)
  have split: "s = t @ ws"
    unfolding t_def ws_def
    by (metis rev_append rev_rev_ident takeWhile_dropWhile_id)
  have spaces: "\<forall>c \<in> set ws. isspace_cp U c"
    unfolding ws_def by (auto dest: set_takeWhileD)
  have t_ne: "t \<noteq> []"
  proof
    assume "t = []"
    with split ne have "hd s \<in> set ws" by simp
    with spaces hd not_space show False by blast
  qed
  with split have hd_t: "hd t = hd s" by simp
  with hd plain have sign: "hd t \<noteq> 45" "hd t \<noteq> 43"
    by (auto simp: digits_plain_def)
  from v strip sign have body: "literal_body U t" and val: "v = int_digits U (filter (\<lambda>c. c \<noteq> 95) t)"
    by (auto simp: py_int_def Let_def split: if_splits)
  from split no_us have clean: "95 \<notin> set t" by simp
  with literal_body_all [OF body] have digits: "\<forall>c \<in> set t. is_decimal U c" by blast
  from spaces not_space have "takeWhile (is_decimal U) ws = []"
    by (cases ws) auto
  with digits split have "takeWhile (is_decimal U) s = t"
    by (simp add: takeWhile_append2)
  moreover from clean have "filter (\<lambda>c. c \<noteq> 95) t = t"
    by (simp add: filter_id_conv) metis
  ultimately show ?thesis using val by simp
qed

lemma takeWhile_inner:
  "(\<And>x. P x \<Longrightarrow> Q x) \<Longrightarrow> takeWhile P (takeWhile Q xs) = takeWhile P xs"
  by (induction xs) auto

lemma same_id:
  assumes plain: "digits_plain U" and a: "leading_id U name = Inr a"
    and b: "split_id U name = Inr b"
  shows "a = b"
proof -
  let ?m = "takeWhile (is_decimal U) name"
  let ?p = "takeWhile (\<lambda>c. c \<noteq> 95) name"
  have not_us: "c \<noteq> 95" if "is_decimal U c" for c
    using plain that by (auto simp: digits_plain_def)
  from a have m_ne: "?m \<noteq> []" and a': "py_int U ?m = Inr a"
    by (auto simp: leading_id_def match_def split: if_splits)
  from m_ne have name: "name \<noteq> []" and hd_name: "is_decimal U (hd name)"
    by (cases name; simp split: if_splits)+
  have m_all: "\<forall>c \<in> set ?m. is_decimal U c"
    by (auto dest: set_takeWhileD)
  from m_ne hd_name name have "is_decimal U (hd ?m)"
    by (cases name) (simp_all split: if_splits)
  moreover from m_all not_us have "95 \<notin> set ?m" by blast
  ultimately have "a = int_digits U (takeWhile (is_decimal U) ?m)"
    using py_int_leading [OF plain m_ne _ _ a'] by blast
  then have a_val: "a = int_digits U ?m" by simp
  from name hd_name have p_ne: "?p \<noteq> []" and hd_p: "is_decimal U (hd ?p)"
    by (cases name; simp add: not_us)+
  have "95 \<notin> set ?p"
    by (auto dest: set_takeWhileD)
  with b have "b = int_digits U (takeWhile (is_decimal U) ?p)"
    using py_int_leading [OF plain p_ne hd_p] by (simp add: split_id_def)
  also have "takeWhile (is_decimal U) ?p = ?m"
    by (rule takeWhile_inner) (rule not_us)
  finally show ?thesis using a_val by simp
qed

lemma traverse_same:
  "traverse f xs = Inr ys \<Longrightarrow> traverse g xs = Inr zs
    \<Longrightarrow> (\<And>x y z. f x = Inr y \<Longrightarrow> g x = Inr z \<Longrightarrow> y = z) \<Longrightarrow> ys = zs"
proof (induction xs arbitrary: ys zs)
  case Nil
  then show ?case by simp
next
  case (Cons x xs)
  from Cons.prems(1) obtain y ys' where y: "f x = Inr y" "traverse f xs = Inr ys'" "ys = y # ys'"
    by (auto split: sum.splits)
  from Cons.prems(2) obtain z zs' where z: "g x = Inr z" "traverse g xs = Inr zs'" "zs = z # zs'"
    by (auto split: sum.splits)
  from Cons.prems(3) [OF y(1) z(1)] Cons.IH [OF y(2) z(2) Cons.prems(3)] y(3) z(3)
  show ?case by simp
qed

lemma contiguous_distinct:
  assumes "sort (ids :: int list) = map int [1..<n + 1]"
  shows "distinct ids"
proof -
  have "distinct (map int [1..<n + 1])"
    by (simp add: distinct_map)
  with assms have "distinct (sort ids)" by simp
  then show ?thesis by simp
qed

lemma py_int_error: "py_int U s = Inl e \<Longrightarrow> e = ValueError"
  by (auto simp: py_int_def Let_def split: if_splits)

lemma leading_id_error: "leading_id U name = Inl e \<Longrightarrow> e = TypeError \<or> e = ValueError"
  by (auto simp: leading_id_def split: option.splits dest: py_int_error)

lemma split_id_error: "split_id U name = Inl e \<Longrightarrow> e = ValueError"
  by (auto simp: split_id_def dest: py_int_error)

lemma traverse_error: "traverse f xs = Inl e \<Longrightarrow> \<exists>x \<in> set xs. f x = Inl e"
  by (induction xs) (auto split: sum.splits)

text \<open>
  C10. \<open>_validate_dataset\<close> never raises the \<open>InconsistentDatasetError\<close> for duplicate
  identifiers: once the identifiers that \<open>re.match(r'\d+', name)\<close> reads from the raw
  files have passed the contiguity check, the identifiers that \<open>name.split("_")[0]\<close>
  reads from the same files are the same list, hence pairwise distinct. (A name for
  which the two readings could differ makes \<open>int\<close> raise \<open>ValueError\<close>.)
\<close>

theorem duplicate_ids_unreachable:
  assumes "digits_plain U"
  shows "validate_dataset U d \<noteq> Inl (InconsistentDatasetError ''IDs contain duplicates'')
     \<and> (traverse (\<lambda>i. leading_id U (file_name i)) (raw_files d) = Inr raw_ids
          \<and> sort raw_ids = map int [1..<length (raw_files d) + 1]
          \<and> traverse (\<lambda>f. split_id U (file_name f)) (raw_files d) = Inr file_ids
        \<longrightarrow> file_ids = raw_ids \<and> distinct file_ids
            \<and> length file_ids = length (remdups file_ids))"
proof -
  have ids: "file_ids = raw_ids \<and> distinct file_ids
            \<and> length file_ids = length (remdups file_ids)"
    if r: "traverse (\<lambda>i. leading_id U (file_name i)) (raw_files d) = Inr raw_ids"
      and c: "sort raw_ids = map int [1..<length (raw_files d) + 1]"
      and f: "traverse (\<lambda>f. split_id U (file_name f)) (raw_files d) = Inr file_ids"
    for raw_ids file_ids
  proof -
    from r f have "raw_ids = file_ids"
      by (rule traverse_same) (rule same_id [OF assms])
    moreover from c have "distinct raw_ids"
      by (rule contiguous_distinct)
    ultimately show ?thesis by (simp add: distinct_remdups_id)
  qed
  have "validate_dataset U d \<noteq> Inl (InconsistentDatasetError ''IDs contain duplicates'')"
  proof
    assume "validate_dataset U d = Inl (InconsistentDatasetError ''IDs contain duplicates'')"
    then obtain raw_ids file_ids where
      "traverse (\<lambda>i. leading_id U (file_name i)) (raw_files d) = Inr raw_ids"
      "sort raw_ids = map int [1..<length (raw_files d) + 1]"
      "traverse (\<lambda>f. split_id U (file_name f)) (raw_files d) = Inr file_ids"
      "length file_ids \<noteq> length (remdups file_ids)"
      unfolding validate_dataset_def
      by (auto simp del: upt_Suc split: if_splits sum.splits
            dest!: traverse_error leading_id_error split_id_error)
    with ids show False by blast
  qed
  with ids show ?thesis by blast
qed

lemmas corpus_defs =
  validate_dataset_def leading_id_def split_id_def py_int_def strip_def match_def
  is_decimal_def int_digits_def

theorem duplicate_ids_unreachable_witness:
  "digits_plain basic_unicode
   \<and> validate_dataset basic_unicode sample_dataset = Inr ()
   \<and> validate_dataset basic_unicode sample_dataset
       \<noteq> Inl (InconsistentDatasetError ''IDs contain duplicates'')
   \<and> traverse (\<lambda>i. leading_id basic_unicode (file_name i)) (raw_files sample_dataset)
       = Inr [1, 2]
   \<and> sort [1, 2 :: int] = map int [1..<length (raw_files sample_dataset) + 1]
   \<and> traverse (\<lambda>f. split_id basic_unicode (file_name f)) (raw_files sample_dataset)
       = Inr [1, 2]
   \<and> distinct [1, 2 :: int]
   \<and> length [1, 2 :: int] = length (remdups [1, 2 :: int])"
proof -
  have p: "digits_plain basic_unicode"
    by (simp add: digits_plain_def is_decimal_def basic_unicode_def)
  have v: "validate_dataset basic_unicode sample_dataset = Inr ()"
    by (simp add: corpus_defs sample_dataset_def basic_unicode_def ascii_def upt_rec)
  have r: "traverse (\<lambda>i. leading_id basic_unicode (file_name i)) (raw_files sample_dataset)
             = Inr [1, 2]"
    by (simp add: corpus_defs sample_dataset_def basic_unicode_def ascii_def)
  have c: "sort [1, 2 :: int] = map int [1..<length (raw_files sample_dataset) + 1]"
    by (simp add: sample_dataset_def upt_rec)
  have f: "traverse (\<lambda>f. split_id basic_unicode (file_name f)) (raw_files sample_dataset)
             = Inr [1, 2]"
    by (simp add: corpus_defs sample_dataset_def basic_unicode_def ascii_def)
  note t = duplicate_ids_unreachable [OF p, of sample_dataset "[1, 2]" "[1, 2]"]
  note t2 = mp [OF conjunct2 [OF t] conjI [OF r conjI [OF c f]]]
  from p v conjunct1 [OF t] r c f conjunct1 [OF conjunct2 [OF t2]] conjunct2 [OF conjunct2 [OF t2]]
  show ?thesis by (intro conjI)
qed

end
